theory Spec2Isabelle
  imports Complex_Main "HOL-Library.Sublist"
begin

section \<open>JavaScript values, strings and numbers\<close>

text \<open>
  The transcript pipeline of \<^verbatim>\<open>src/unnamed/part_000\<close> is embedded function by function:
  \<^verbatim>\<open>processTranscriptEntries\<close>, \<^verbatim>\<open>extractConversationText\<close>, \<^verbatim>\<open>analyzeTranscriptContent\<close> and their
  helpers \<^verbatim>\<open>getSpeakerName\<close>, \<^verbatim>\<open>formatTimestamp\<close> and \<^verbatim>\<open>analyzeSentence\<close>.

  JavaScript numbers are modelled as exact rationals: IEEE rounding, NaN and the
  infinities are outside the model, and an integer is printed in decimal whatever its
  size. Strings are lists of characters whose codes are read as the Latin-1 range of
  UTF-16 code units. A thrown exception is the left summand of a sum type. Mutable locals
  of a loop (the output array, the speaker map, the analysis object) are passed through
  the recursion that models the loop.
\<close>

datatype js_error = TypeError

text \<open>
  A field of vendor data that the code reads without knowing its type: \<^verbatim>\<open>sentence.text\<close>.
  \<open>JObject\<close> stands for any object or array (it has none of the string methods).
\<close>

datatype jsval = JUndefined | JNull | JBool bool | JNum rat | JStr string | JObject

fun truthy :: "jsval \<Rightarrow> bool" where
  "truthy JUndefined = False"
| "truthy JNull = False"
| "truthy (JBool b) = b"
| "truthy (JNum n) = (n \<noteq> 0)"
| "truthy (JStr s) = (s \<noteq> [])"
| "truthy JObject = True"

text \<open>Truthiness of an optional number (\<^verbatim>\<open>sentence.start ? ... : 0\<close>) and of an optional string.\<close>

fun truthy_num :: "rat option \<Rightarrow> bool" where
  "truthy_num None = False"
| "truthy_num (Some n) = (n \<noteq> 0)"

fun truthy_str :: "string option \<Rightarrow> bool" where
  "truthy_str None = False"
| "truthy_str (Some s) = (s \<noteq> [])"

subsection \<open>String methods\<close>

definition toLowerChar :: "char \<Rightarrow> char" where
  "toLowerChar c =
     (let n = (of_char c :: nat)
      in if (65 \<le> n \<and> n \<le> 90) \<or> (192 \<le> n \<and> n \<le> 222 \<and> n \<noteq> 215)
         then char_of (n + 32) else c)"

definition toLowerCase :: "string \<Rightarrow> string" where
  "toLowerCase s = map toLowerChar s"

text \<open>\<^verbatim>\<open>haystack.includes(needle)\<close>: the needle occurs as a contiguous run.\<close>

fun includes_str :: "string \<Rightarrow> string \<Rightarrow> bool" where
  "includes_str [] needle = (needle = [])"
| "includes_str (c # cs) needle = (prefix needle (c # cs) \<or> includes_str cs needle)"

text \<open>\<^verbatim>\<open>s.split(' ')\<close>: cut at every single space; the empty string gives one empty token.\<close>

fun split_space :: "string \<Rightarrow> string list" where
  "split_space [] = [[]]"
| "split_space (c # cs) =
     (if c = CHR '' '' then [] # split_space cs
      else (case split_space cs of
              [] \<Rightarrow> [[c]]
            | w # ws \<Rightarrow> (c # w) # ws))"

text \<open>White space and line terminators of the language that lie in the Latin-1 range.\<close>

definition is_js_space :: "char \<Rightarrow> bool" where
  "is_js_space c =
     (let n = (of_char c :: nat)
      in n = 9 \<or> n = 10 \<or> n = 11 \<or> n = 12 \<or> n = 13 \<or> n = 32 \<or> n = 160)"

definition trim :: "string \<Rightarrow> string" where
  "trim s = rev (dropWhile is_js_space (rev (dropWhile is_js_space s)))"

text \<open>\<^verbatim>\<open>lines.join('\n')\<close>.\<close>

fun join_newline :: "string list \<Rightarrow> string" where
  "join_newline [] = []"
| "join_newline [l] = l"
| "join_newline (l # ls) = l @ [CHR 0x0A] @ join_newline ls"

subsection \<open>Numbers to strings\<close>

definition digit_char :: "nat \<Rightarrow> char" where
  "digit_char d = char_of (48 + d)"

fun nat_to_string :: "nat \<Rightarrow> string" where
  "nat_to_string n =
     (if n < 10 then [digit_char n]
      else nat_to_string (n div 10) @ [digit_char (n mod 10)])"

declare nat_to_string.simps [simp del]

definition int_to_string :: "int \<Rightarrow> string" where
  "int_to_string i =
     (if i < 0 then CHR ''-'' # nat_to_string (nat (- i)) else nat_to_string (nat i))"

definition padStart2 :: "string \<Rightarrow> string" where
  "padStart2 s = replicate (2 - length s) CHR ''0'' @ s"

text \<open>The remainder operator keeps the sign of the dividend.\<close>

definition js_trunc :: "rat \<Rightarrow> int" where
  "js_trunc q = (if 0 \<le> q then \<lfloor>q\<rfloor> else \<lceil>q\<rceil>)"

definition js_rem :: "rat \<Rightarrow> rat \<Rightarrow> rat" where
  "js_rem x y = x - y * of_int (js_trunc (x / y))"

section \<open>Helper functions of the transcript handler\<close>

subsection \<open>formatTimestamp\<close>

text \<open>
  The guard \<^verbatim>\<open>!seconds && seconds !== 0\<close> only fires on NaN, null or undefined; it is kept
  as written, and is never true of a number.
\<close>

definition formatTimestamp :: "rat \<Rightarrow> string" where
  "formatTimestamp seconds =
     (if \<not> (seconds \<noteq> 0) \<and> seconds \<noteq> 0 then ''00:00''
      else let mins = \<lfloor>seconds / 60\<rfloor>;
               secs = \<lfloor>js_rem seconds 60\<rfloor>
           in padStart2 (int_to_string mins) @ '':'' @ padStart2 (int_to_string secs))"

subsection \<open>analyzeSentence\<close>

datatype sentiment = Positive | Neutral | Negative

definition positiveWords :: "string list" where
  "positiveWords = [''great'', ''excellent'', ''good'', ''love'', ''perfect'', ''amazing'',
                    ''fantastic'', ''wonderful'']"

definition negativeWords :: "string list" where
  "negativeWords = [''bad'', ''terrible'', ''awful'', ''hate'', ''worst'', ''horrible'',
                    ''concern'', ''problem'', ''issue'']"

text \<open>
  A falsy argument is neutral. A truthy argument that is not a string has no
  \<^verbatim>\<open>toLowerCase\<close> method, and calling it throws.
\<close>

definition analyzeSentence :: "jsval \<Rightarrow> js_error + sentiment" where
  "analyzeSentence text =
     (if \<not> truthy text then Inr Neutral
      else case text of
        JStr s \<Rightarrow>
          (let lowerText = toLowerCase s;
               positiveCount = length (filter (\<lambda>word. includes_str lowerText word) positiveWords);
               negativeCount = length (filter (\<lambda>word. includes_str lowerText word) negativeWords)
           in if positiveCount > negativeCount then Inr Positive
              else if negativeCount > positiveCount then Inr Negative
              else Inr Neutral)
      | _ \<Rightarrow> Inl TypeError)"

subsection \<open>getSpeakerName\<close>

text \<open>
  The \<^verbatim>\<open>Map\<close> from speaker ids to labels, in insertion order. A key is only ever set when it
  is absent, so the list never holds a key twice and \<^verbatim>\<open>size\<close> is its length. The function
  tests \<^verbatim>\<open>has\<close>, stores the new label when the key is absent, and returns what \<^verbatim>\<open>get\<close> then
  finds: the label just stored, or the one remembered.
\<close>

type_synonym speaker_map = "(string \<times> string) list"

definition getSpeakerName :: "string \<Rightarrow> speaker_map \<Rightarrow> string \<times> speaker_map" where
  "getSpeakerName speakerId speakerMap =
     (case map_of speakerMap speakerId of
        None \<Rightarrow>
          (let speakerNumber = length speakerMap + 1;
               label = ''Speaker '' @ nat_to_string speakerNumber
           in (label, speakerMap @ [(speakerId, label)]))
      | Some label \<Rightarrow> (label, speakerMap))"

section \<open>The data model\<close>

text \<open>
  A raw sentence and a raw entry of the vendor transcript. An absent field is \<open>None\<close>
  (or \<open>JUndefined\<close>). \<open>e_sentences\<close> is \<open>Some\<close> exactly when \<^verbatim>\<open>entry.sentences\<close> is an array,
  the empty one included: the test \<^verbatim>\<open>entry.sentences && Array.isArray(entry.sentences)\<close>
  accepts every array. \<open>e_sentence\<close>, \<open>e_text\<close>, \<open>e_startTime\<close> and \<open>e_endTime\<close> are the
  fields of the legacy shape.
\<close>

record raw_sentence =
  s_text :: jsval
  s_start :: "rat option"
  s_end :: "rat option"

record raw_entry =
  e_speakerId :: string
  e_topic :: "string option"
  e_sentences :: "raw_sentence list option"
  e_sentence :: "string option"
  e_text :: "string option"
  e_startTime :: "rat option"
  e_endTime :: "rat option"

text \<open>The argument of the three pipeline functions: an array of entries, or anything else.\<close>

datatype transcript_arg = NotAnArray jsval | EntryArray "raw_entry list"

record utterance =
  u_speakerId :: string
  u_speakerName :: string
  u_sentence :: jsval
  u_startTime :: rat
  u_endTime :: rat
  u_timestamp :: string
  u_topic :: "string option"
  u_duration :: rat
  u_wordCount :: nat
  u_sentiment :: sentiment

record speaker_stat =
  st_totalTime :: rat
  st_wordCount :: nat
  st_sentenceCount :: nat
  st_avgWordsPerSentence :: rat
  st_talkTimePercentage :: "rat option"

record topic_record =
  t_topic :: string
  t_startTime :: rat
  t_duration :: rat
  t_mentions :: nat

record sentiment_distribution =
  positive :: nat
  neutral :: nat
  negative :: nat

record interaction_metrics =
  questionCount :: nat
  exclamationCount :: nat
  speakerSwitches :: nat

text \<open>
  \<open>speakerStats\<close> holds the own properties of the \<^verbatim>\<open>speakerStats\<close> object, in insertion order
  (the engine enumerates keys that look like array indices first; nothing below depends
  on the order). \<open>st_talkTimePercentage\<close> is absent until the closing pass sets it.
\<close>

record analysis =
  speakerStats :: "(string \<times> speaker_stat) list"
  totalDuration :: rat
  totalWords :: nat
  sentimentDistribution :: sentiment_distribution
  topicFlow :: "topic_record list"
  interactionMetrics :: interaction_metrics

text \<open>The analyzer returns the empty object literal for a non-array argument.\<close>

datatype analyzer_result = EmptyObject | Analytics analysis

section \<open>Per-sentence formulas\<close>

text \<open>\<^verbatim>\<open>x ? x / 1000 : 0\<close>\<close>

definition ms_to_seconds :: "rat option \<Rightarrow> rat" where
  "ms_to_seconds x = (if truthy_num x then (case x of Some n \<Rightarrow> n / 1000 | None \<Rightarrow> 0) else 0)"

text \<open>\<^verbatim>\<open>sentence.end && sentence.start ? (sentence.end - sentence.start) / 1000 : 0\<close>\<close>

definition sentence_duration :: "raw_sentence \<Rightarrow> rat" where
  "sentence_duration sentence =
     (if truthy_num (s_end sentence) \<and> truthy_num (s_start sentence)
      then (case (s_end sentence, s_start sentence) of
              (Some e, Some b) \<Rightarrow> (e - b) / 1000
            | _ \<Rightarrow> 0)
      else 0)"

text \<open>\<^verbatim>\<open>x || y\<close> on values and on optional strings and numbers.\<close>

definition or_else :: "jsval \<Rightarrow> jsval \<Rightarrow> jsval" where
  "or_else x y = (if truthy x then x else y)"

definition str_or :: "string option \<Rightarrow> string option \<Rightarrow> string option" where
  "str_or x y = (if truthy_str x then x else y)"

definition num_or_zero :: "rat option \<Rightarrow> rat" where
  "num_or_zero x = (if truthy_num x then (case x of Some n \<Rightarrow> n | None \<Rightarrow> 0) else 0)"

text \<open>\<^verbatim>\<open>entry.topic || null\<close>\<close>

definition topic_or_null :: "string option \<Rightarrow> string option" where
  "topic_or_null t = (if truthy_str t then t else None)"

text \<open>
  \<^verbatim>\<open>v.split(' ').length\<close>: only a string has the method; on any other value the call throws.
\<close>

definition split_length :: "jsval \<Rightarrow> js_error + nat" where
  "split_length v = (case v of JStr s \<Rightarrow> Inr (length (split_space s)) | _ \<Rightarrow> Inl TypeError)"

section \<open>processTranscriptEntries\<close>

text \<open>
  The object literal pushed for one sentence. Its properties are evaluated in order, so
  the resolver is called before \<^verbatim>\<open>wordCount\<close> and \<^verbatim>\<open>sentiment\<close> can throw.
\<close>

definition sentence_utterance ::
  "raw_entry \<Rightarrow> raw_sentence \<Rightarrow> speaker_map \<Rightarrow> js_error + (utterance \<times> speaker_map)" where
  "sentence_utterance entry sentence speakerMap =
     (case getSpeakerName (e_speakerId entry) speakerMap of (name, speakerMap') \<Rightarrow>
      (case (if truthy (s_text sentence) then split_length (s_text sentence) else Inr 0) of
         Inl err \<Rightarrow> Inl err
       | Inr wc \<Rightarrow>
          (case analyzeSentence (s_text sentence) of
             Inl err \<Rightarrow> Inl err
           | Inr snt \<Rightarrow>
               Inr (\<lparr> u_speakerId = e_speakerId entry,
                       u_speakerName = name,
                       u_sentence = or_else (s_text sentence) (JStr ''No text available''),
                       u_startTime = ms_to_seconds (s_start sentence),
                       u_endTime = ms_to_seconds (s_end sentence),
                       u_timestamp = formatTimestamp (ms_to_seconds (s_start sentence)),
                       u_topic = topic_or_null (e_topic entry),
                       u_duration = sentence_duration sentence,
                       u_wordCount = wc,
                       u_sentiment = snt \<rparr>, speakerMap'))))"

text \<open>The fallback object for an entry without a sentences array.\<close>

definition fallback_utterance :: "raw_entry \<Rightarrow> speaker_map \<Rightarrow> utterance \<times> speaker_map" where
  "fallback_utterance entry speakerMap =
     (case getSpeakerName (e_speakerId entry) speakerMap of (name, speakerMap') \<Rightarrow>
        (\<lparr> u_speakerId = e_speakerId entry,
            u_speakerName = name,
            u_sentence = (case str_or (e_sentence entry)
                                 (str_or (e_text entry) (Some ''No content available'')) of
                            Some s \<Rightarrow> JStr s
                          | None \<Rightarrow> JUndefined),
            u_startTime = num_or_zero (e_startTime entry),
            u_endTime = num_or_zero (e_endTime entry),
            u_timestamp = formatTimestamp (num_or_zero (e_startTime entry)),
            u_topic = topic_or_null (e_topic entry),
            u_duration = 0,
            u_wordCount = 0,
            u_sentiment = Neutral \<rparr>, speakerMap'))"

text \<open>The inner loop over \<^verbatim>\<open>entry.sentences\<close>; the state is the output array and the speaker map.\<close>

fun process_sentences ::
  "raw_entry \<Rightarrow> raw_sentence list \<Rightarrow> utterance list \<times> speaker_map
     \<Rightarrow> js_error + (utterance list \<times> speaker_map)" where
  "process_sentences entry [] st = Inr st"
| "process_sentences entry (sentence # rest) (processedEntries, speakerMap) =
     (case sentence_utterance entry sentence speakerMap of
        Inl err \<Rightarrow> Inl err
      | Inr (u, speakerMap') \<Rightarrow> process_sentences entry rest (processedEntries @ [u], speakerMap'))"

text \<open>The outer loop over the transcript array.\<close>

fun process_entries ::
  "raw_entry list \<Rightarrow> utterance list \<times> speaker_map \<Rightarrow> js_error + (utterance list \<times> speaker_map)" where
  "process_entries [] st = Inr st"
| "process_entries (entry # rest) (processedEntries, speakerMap) =
     (case e_sentences entry of
        Some sentences \<Rightarrow>
          (case process_sentences entry sentences (processedEntries, speakerMap) of
             Inl err \<Rightarrow> Inl err
           | Inr st' \<Rightarrow> process_entries rest st')
      | None \<Rightarrow>
          (case fallback_utterance entry speakerMap of (u, speakerMap') \<Rightarrow>
             process_entries rest (processedEntries @ [u], speakerMap')))"

definition processTranscriptEntries :: "transcript_arg \<Rightarrow> js_error + utterance list" where
  "processTranscriptEntries transcriptArray =
     (case transcriptArray of
        NotAnArray _ \<Rightarrow> Inr []
      | EntryArray entries \<Rightarrow>
          (case process_entries entries ([], []) of
             Inl err \<Rightarrow> Inl err
           | Inr (processedEntries, _) \<Rightarrow> Inr processedEntries))"

section \<open>extractConversationText\<close>

text \<open>
  \<^verbatim>\<open>sentence.text?.trim()\<close>: undefined for a nullish text, the trimmed string for a string,
  and a thrown TypeError for every other value (it is not nullish and has no \<^verbatim>\<open>trim\<close>).
\<close>

definition optional_trim :: "jsval \<Rightarrow> js_error + string option" where
  "optional_trim v =
     (case v of
        JUndefined \<Rightarrow> Inr None
      | JNull \<Rightarrow> Inr None
      | JStr s \<Rightarrow> Inr (Some (trim s))
      | _ \<Rightarrow> Inl TypeError)"

text \<open>
  The label of the entry's speaker: \<^verbatim>\<open>`Speaker${speakerMap.size + 1}`\<close> on first sight, the
  remembered label afterwards.
\<close>

definition extract_speaker :: "string \<Rightarrow> speaker_map \<Rightarrow> string \<times> speaker_map" where
  "extract_speaker speakerId speakerMap =
     (let speakerName = ''Speaker'' @ nat_to_string (length speakerMap + 1)
      in case map_of speakerMap speakerId of
           None \<Rightarrow> (speakerName, speakerMap @ [(speakerId, speakerName)])
         | Some remembered \<Rightarrow> (remembered, speakerMap))"

text \<open>
  The copy of the function in \<^verbatim>\<open>src/functions/ai-analysis/index.js\<close> differs in this step
  only: it starts from \<^verbatim>\<open>`Speaker_${speakerId}`\<close> and overwrites it in both branches.
\<close>

definition extract_speaker_ai :: "string \<Rightarrow> speaker_map \<Rightarrow> string \<times> speaker_map" where
  "extract_speaker_ai speakerId speakerMap =
     (let speakerName = ''Speaker_'' @ speakerId
      in case map_of speakerMap speakerId of
           None \<Rightarrow>
             (let speakerNumber = length speakerMap + 1;
                  speakerName' = ''Speaker'' @ nat_to_string speakerNumber
              in (speakerName', speakerMap @ [(speakerId, speakerName')]))
         | Some remembered \<Rightarrow> (remembered, speakerMap))"

fun extract_sentences ::
  "string \<Rightarrow> raw_sentence list \<Rightarrow> string list \<Rightarrow> js_error + string list" where
  "extract_sentences speakerName [] conversation = Inr conversation"
| "extract_sentences speakerName (sentence # rest) conversation =
     (case optional_trim (s_text sentence) of
        Inl err \<Rightarrow> Inl err
      | Inr trimmed \<Rightarrow>
          (if truthy_str trimmed
           then (case trimmed of
                   Some t \<Rightarrow>
                     extract_sentences speakerName rest (conversation @ [speakerName @ '': '' @ t])
                 | None \<Rightarrow> extract_sentences speakerName rest conversation)
           else extract_sentences speakerName rest conversation))"

fun extract_entries ::
  "raw_entry list \<Rightarrow> string list \<times> speaker_map \<Rightarrow> js_error + (string list \<times> speaker_map)" where
  "extract_entries [] st = Inr st"
| "extract_entries (entry # rest) (conversation, speakerMap) =
     (case e_sentences entry of
        Some sentences \<Rightarrow>
          (case extract_speaker (e_speakerId entry) speakerMap of (speakerName, speakerMap') \<Rightarrow>
             (case extract_sentences speakerName sentences conversation of
                Inl err \<Rightarrow> Inl err
              | Inr conversation' \<Rightarrow> extract_entries rest (conversation', speakerMap')))
      | None \<Rightarrow> extract_entries rest (conversation, speakerMap))"

definition extractConversationText :: "transcript_arg \<Rightarrow> js_error + string" where
  "extractConversationText transcriptArray =
     (case transcriptArray of
        NotAnArray _ \<Rightarrow> Inr []
      | EntryArray entries \<Rightarrow>
          (case extract_entries entries ([], []) of
             Inl err \<Rightarrow> Inl err
           | Inr (conversation, _) \<Rightarrow> Inr (join_newline conversation)))"

section \<open>analyzeTranscriptContent\<close>

text \<open>
  \<^verbatim>\<open>speakerStats\<close> is an object literal used as a dictionary. Reading
  \<^verbatim>\<open>analysis.speakerStats[speakerId]\<close> also finds the properties that every object inherits
  from \<^verbatim>\<open>Object.prototype\<close>; all of them are functions or objects, hence truthy.
\<close>

definition object_prototype_keys :: "string list" where
  "object_prototype_keys =
     [''constructor'', ''__defineGetter__'', ''__defineSetter__'', ''hasOwnProperty'',
      ''__lookupGetter__'', ''__lookupSetter__'', ''isPrototypeOf'', ''propertyIsEnumerable'',
      ''toString'', ''valueOf'', ''__proto__'', ''toLocaleString'']"

text \<open>\<^verbatim>\<open>analysis.speakerStats[speakerId]\<close> is truthy: an own record, or an inherited property.\<close>

definition stats_truthy :: "(string \<times> speaker_stat) list \<Rightarrow> string \<Rightarrow> bool" where
  "stats_truthy stats speakerId =
     (map_of stats speakerId \<noteq> None \<or> speakerId \<in> set object_prototype_keys)"

definition new_speaker_stat :: speaker_stat where
  "new_speaker_stat =
     \<lparr> st_totalTime = 0, st_wordCount = 0, st_sentenceCount = 0,
       st_avgWordsPerSentence = 0, st_talkTimePercentage = None \<rparr>"

text \<open>
  An assignment through \<^verbatim>\<open>analysis.speakerStats[speakerId]\<close> changes the own record of that key.
  When the key resolved to an inherited property the assignment lands on that inherited
  object, and no own property of \<^verbatim>\<open>speakerStats\<close> changes.
\<close>

definition stats_update ::
  "string \<Rightarrow> (speaker_stat \<Rightarrow> speaker_stat) \<Rightarrow> (string \<times> speaker_stat) list
     \<Rightarrow> (string \<times> speaker_stat) list" where
  "stats_update speakerId f stats =
     map (\<lambda>(k, st). if k = speakerId then (k, f st) else (k, st)) stats"

text \<open>\<^verbatim>\<open>analysis.sentimentDistribution[sentiment]++\<close>\<close>

fun bump_sentiment :: "sentiment \<Rightarrow> sentiment_distribution \<Rightarrow> sentiment_distribution" where
  "bump_sentiment Positive d = d\<lparr>positive := positive d + 1\<rparr>"
| "bump_sentiment Neutral d = d\<lparr>neutral := neutral d + 1\<rparr>"
| "bump_sentiment Negative d = d\<lparr>negative := negative d + 1\<rparr>"

text \<open>The record that \<^verbatim>\<open>find\<close> returns is the first match, and it is changed in place.\<close>

fun update_first :: "('a \<Rightarrow> bool) \<Rightarrow> ('a \<Rightarrow> 'a) \<Rightarrow> 'a list \<Rightarrow> 'a list" where
  "update_first p f [] = []"
| "update_first p f (x # xs) = (if p x then f x # xs else x # update_first p f xs)"

definition track_topic ::
  "raw_entry \<Rightarrow> raw_sentence \<Rightarrow> rat \<Rightarrow> topic_record list \<Rightarrow> topic_record list" where
  "track_topic entry sentence duration flow =
     (if truthy_str (e_topic entry)
      then (case e_topic entry of
              None \<Rightarrow> flow
            | Some tp \<Rightarrow>
                (case find (\<lambda>t. t_topic t = tp) flow of
                   Some existingTopic \<Rightarrow>
                     update_first (\<lambda>t. t_topic t = tp)
                       (\<lambda>t. t\<lparr> t_duration := t_duration t + duration,
                                t_mentions := t_mentions t + 1 \<rparr>) flow
                 | None \<Rightarrow>
                     flow @ [\<lparr> t_topic = tp,
                               t_startTime = ms_to_seconds (s_start sentence),
                               t_duration = duration,
                               t_mentions = 1 \<rparr>]))
      else flow)"

text \<open>
  The body of the inner loop. \<^verbatim>\<open>text.split\<close> throws before anything is updated when
  \<^verbatim>\<open>sentence.text\<close> is truthy and not a string.
\<close>

definition analyze_sentence :: "raw_entry \<Rightarrow> raw_sentence \<Rightarrow> analysis \<Rightarrow> js_error + analysis" where
  "analyze_sentence entry sentence a =
     (let text = or_else (s_text sentence) (JStr []);
          duration = sentence_duration sentence
      in case split_length text of
           Inl err \<Rightarrow> Inl err
         | Inr words \<Rightarrow>
            (case analyzeSentence text of
               Inl err \<Rightarrow> Inl err
             | Inr snt \<Rightarrow>
                (case text of
                   JStr t \<Rightarrow>
                     Inr (a\<lparr> totalDuration := totalDuration a + duration,
                             totalWords := totalWords a + words,
                             speakerStats :=
                               stats_update (e_speakerId entry)
                                 (\<lambda>st. st\<lparr> st_totalTime := st_totalTime st + duration,
                                           st_wordCount := st_wordCount st + words,
                                           st_sentenceCount := st_sentenceCount st + 1 \<rparr>)
                                 (speakerStats a),
                             sentimentDistribution := bump_sentiment snt (sentimentDistribution a),
                             interactionMetrics :=
                               (interactionMetrics a)
                                 \<lparr> questionCount :=
                                     (if includes_str t ''?''
                                      then questionCount (interactionMetrics a) + 1
                                      else questionCount (interactionMetrics a)),
                                   exclamationCount :=
                                     (if includes_str t ''!''
                                      then exclamationCount (interactionMetrics a) + 1
                                      else exclamationCount (interactionMetrics a)) \<rparr>,
                             topicFlow := track_topic entry sentence duration (topicFlow a) \<rparr>)
                 | _ \<Rightarrow> Inl TypeError)))"

fun analyze_sentences :: "raw_entry \<Rightarrow> raw_sentence list \<Rightarrow> analysis \<Rightarrow> js_error + analysis" where
  "analyze_sentences entry [] a = Inr a"
| "analyze_sentences entry (sentence # rest) a =
     (case analyze_sentence entry sentence a of
        Inl err \<Rightarrow> Inl err
      | Inr a' \<Rightarrow> analyze_sentences entry rest a')"

text \<open>
  What the loop body does for an entry with a sentences array before it scans the
  sentences: the switch counter, \<^verbatim>\<open>lastSpeaker\<close>, and the lazy initialisation of the stats.
\<close>

definition switch_detected :: "string option \<Rightarrow> string \<Rightarrow> bool" where
  "switch_detected lastSpeaker speakerId =
     (truthy_str lastSpeaker \<and> lastSpeaker \<noteq> Some speakerId)"

definition enter_entry :: "raw_entry \<Rightarrow> string option \<Rightarrow> analysis \<Rightarrow> analysis" where
  "enter_entry entry lastSpeaker a =
     (let speakerId = e_speakerId entry;
          a1 = (if switch_detected lastSpeaker speakerId
                then a\<lparr> interactionMetrics :=
                          (interactionMetrics a)
                            \<lparr> speakerSwitches := speakerSwitches (interactionMetrics a) + 1 \<rparr> \<rparr>
                else a)
      in if \<not> stats_truthy (speakerStats a1) speakerId
         then a1\<lparr> speakerStats := speakerStats a1 @ [(speakerId, new_speaker_stat)] \<rparr>
         else a1)"

fun analyze_entries ::
  "raw_entry list \<Rightarrow> string option \<times> analysis \<Rightarrow> js_error + (string option \<times> analysis)" where
  "analyze_entries [] st = Inr st"
| "analyze_entries (entry # rest) (lastSpeaker, a) =
     (case e_sentences entry of
        Some sentences \<Rightarrow>
          (case analyze_sentences entry sentences (enter_entry entry lastSpeaker a) of
             Inl err \<Rightarrow> Inl err
           | Inr a' \<Rightarrow> analyze_entries rest (Some (e_speakerId entry), a'))
      | None \<Rightarrow> analyze_entries rest (lastSpeaker, a))"

definition initial_analysis :: analysis where
  "initial_analysis =
     \<lparr> speakerStats = [],
       totalDuration = 0,
       totalWords = 0,
       sentimentDistribution = \<lparr> positive = 0, neutral = 0, negative = 0 \<rparr>,
       topicFlow = [],
       interactionMetrics = \<lparr> questionCount = 0, exclamationCount = 0, speakerSwitches = 0 \<rparr> \<rparr>"

text \<open>The closing pass over \<^verbatim>\<open>Object.keys(analysis.speakerStats)\<close>, the own keys.\<close>

definition finish_stat :: "rat \<Rightarrow> speaker_stat \<Rightarrow> speaker_stat" where
  "finish_stat whole st =
     st\<lparr> st_avgWordsPerSentence :=
            (if st_sentenceCount st > 0
             then of_nat (st_wordCount st) / of_nat (st_sentenceCount st) else 0),
         st_talkTimePercentage :=
            Some (if whole > 0 then (st_totalTime st / whole) * 100 else 0) \<rparr>"

definition calculate_averages :: "analysis \<Rightarrow> analysis" where
  "calculate_averages a =
     a\<lparr> speakerStats := map (\<lambda>(k, st). (k, finish_stat (totalDuration a) st)) (speakerStats a) \<rparr>"

definition analyzeTranscriptContent :: "transcript_arg \<Rightarrow> js_error + analyzer_result" where
  "analyzeTranscriptContent transcriptArray =
     (case transcriptArray of
        NotAnArray _ \<Rightarrow> Inr EmptyObject
      | EntryArray entries \<Rightarrow>
          (case analyze_entries entries (None, initial_analysis) of
             Inl err \<Rightarrow> Inl err
           | Inr (_, a) \<Rightarrow> Inr (Analytics (calculate_averages a))))"

section \<open>The stated behaviour, as definitions\<close>

text \<open>
  The definitions of this section are not translations of code. They write down what the
  specification says of the functions above, so that the two can be compared.
\<close>

subsection \<open>Inputs of the documented shape\<close>

text \<open>
  The specification types \<^verbatim>\<open>sentence.text\<close> as an optional string: the field is absent
  (undefined or null) or holds a string.
\<close>

definition text_well_typed :: "jsval \<Rightarrow> bool" where
  "text_well_typed v = (case v of JUndefined \<Rightarrow> True | JNull \<Rightarrow> True | JStr _ \<Rightarrow> True | _ \<Rightarrow> False)"

definition entry_well_typed :: "raw_entry \<Rightarrow> bool" where
  "entry_well_typed e =
     (case e_sentences e of
        None \<Rightarrow> True
      | Some ss \<Rightarrow> list_all (\<lambda>s. text_well_typed (s_text s)) ss)"

definition well_typed :: "raw_entry list \<Rightarrow> bool" where
  "well_typed es = list_all entry_well_typed es"

text \<open>An argument of the documented shape: not an array, or an array of such entries.\<close>

definition arg_well_typed :: "transcript_arg \<Rightarrow> bool" where
  "arg_well_typed arg = (case arg of NotAnArray _ \<Rightarrow> True | EntryArray es \<Rightarrow> well_typed es)"

subsection \<open>Sentence sentiment classifier\<close>

definition claimed_positive_words :: "string list" where
  "claimed_positive_words =
     [''great'', ''excellent'', ''good'', ''love'', ''perfect'', ''amazing'', ''fantastic'',
      ''wonderful'']"

definition claimed_negative_words :: "string list" where
  "claimed_negative_words =
     [''bad'', ''terrible'', ''awful'', ''hate'', ''worst'', ''horrible'', ''concern'',
      ''problem'', ''issue'']"

text \<open>
  Letter case, stated by a table and not by the code's \<open>toLowerCase\<close>: a capital letter
  of the alphabet stands for its small letter, and every other character for itself.
\<close>

definition capital_letters :: string where
  "capital_letters = ''ABCDEFGHIJKLMNOPQRSTUVWXYZ''"

definition small_letters :: string where
  "small_letters = ''abcdefghijklmnopqrstuvwxyz''"

definition fold_case :: "char \<Rightarrow> char" where
  "fold_case c = (case map_of (zip capital_letters small_letters) c of Some l \<Rightarrow> l | None \<Rightarrow> c)"

text \<open>Some contiguous part of the text equals the word up to letter case.\<close>

definition contains_ci :: "string \<Rightarrow> string \<Rightarrow> bool" where
  "contains_ci txt word \<longleftrightarrow>
     (\<exists>before part after. txt = before @ part @ after
        \<and> map fold_case part = map fold_case word)"

definition claimed_sentiment :: "string \<Rightarrow> sentiment" where
  "claimed_sentiment txt =
     (let p = length (filter (contains_ci txt) claimed_positive_words);
          n = length (filter (contains_ci txt) claimed_negative_words)
      in if p > n then Positive else if n > p then Negative else Neutral)"

subsection \<open>Speaker resolver\<close>

text \<open>A sequence of lookups against one resolver instance, the map threaded through.\<close>

fun resolve_all :: "string list \<Rightarrow> speaker_map \<Rightarrow> string list \<times> speaker_map" where
  "resolve_all [] speakerMap = ([], speakerMap)"
| "resolve_all (speakerId # rest) speakerMap =
     (case getSpeakerName speakerId speakerMap of (label, speakerMap') \<Rightarrow>
        (case resolve_all rest speakerMap' of (labels, speakerMap'') \<Rightarrow>
           (label # labels, speakerMap'')))"

text \<open>
  The number of a speaker in a sequence of ids: one more than the number of distinct ids
  that come before its first occurrence.
\<close>

definition speaker_number :: "string list \<Rightarrow> string \<Rightarrow> nat" where
  "speaker_number ids k = Suc (card (set (takeWhile (\<lambda>y. y \<noteq> k) ids)))"

subsection \<open>Entry normalizer\<close>

definition expected_seconds :: "rat option \<Rightarrow> rat" where
  "expected_seconds ms = (case ms of None \<Rightarrow> 0 | Some n \<Rightarrow> if n = 0 then 0 else n / 1000)"

definition expected_duration :: "raw_sentence \<Rightarrow> rat" where
  "expected_duration s =
     (case s_start s of
        None \<Rightarrow> 0
      | Some b \<Rightarrow>
         (case s_end s of
            None \<Rightarrow> 0
          | Some e \<Rightarrow> if b = 0 \<or> e = 0 then 0 else (e - b) / 1000))"

text \<open>Tokens of a text cut at single spaces: one more than its spaces; none without text.\<close>

definition expected_word_count :: "jsval \<Rightarrow> nat" where
  "expected_word_count v =
     (case v of
        JStr t \<Rightarrow> if t = [] then 0 else Suc (length (filter (\<lambda>c. c = CHR '' '') t))
      | _ \<Rightarrow> 0)"

definition expected_sentiment :: "jsval \<Rightarrow> sentiment" where
  "expected_sentiment v = (case v of JStr t \<Rightarrow> claimed_sentiment t | _ \<Rightarrow> Neutral)"

definition nonempty_or_null :: "string option \<Rightarrow> string option" where
  "nonempty_or_null t = (case t of None \<Rightarrow> None | Some s \<Rightarrow> if s = [] then None else Some s)"

definition expected_sentence_utterance :: "raw_entry \<Rightarrow> raw_sentence \<Rightarrow> string \<Rightarrow> utterance" where
  "expected_sentence_utterance e s name =
     \<lparr> u_speakerId = e_speakerId e,
       u_speakerName = name,
       u_sentence = (case s_text s of
                       JStr t \<Rightarrow> if t = [] then JStr ''No text available'' else JStr t
                     | _ \<Rightarrow> JStr ''No text available''),
       u_startTime = expected_seconds (s_start s),
       u_endTime = expected_seconds (s_end s),
       u_timestamp = formatTimestamp (expected_seconds (s_start s)),
       u_topic = nonempty_or_null (e_topic e),
       u_duration = expected_duration s,
       u_wordCount = expected_word_count (s_text s),
       u_sentiment = expected_sentiment (s_text s) \<rparr>"

text \<open>
  The fallback utterance. The first of \<^verbatim>\<open>entry.sentence\<close>, \<^verbatim>\<open>entry.text\<close> that is a non-empty
  string is taken: an empty string counts as missing.
\<close>

definition expected_fallback :: "raw_entry \<Rightarrow> string \<Rightarrow> utterance" where
  "expected_fallback e name =
     \<lparr> u_speakerId = e_speakerId e,
       u_speakerName = name,
       u_sentence = JStr (case nonempty_or_null (e_sentence e) of
                            Some s \<Rightarrow> s
                          | None \<Rightarrow>
                             (case nonempty_or_null (e_text e) of
                                Some s \<Rightarrow> s
                              | None \<Rightarrow> ''No content available'')),
       u_startTime = (case e_startTime e of None \<Rightarrow> 0 | Some n \<Rightarrow> n),
       u_endTime = (case e_endTime e of None \<Rightarrow> 0 | Some n \<Rightarrow> n),
       u_timestamp = formatTimestamp (case e_startTime e of None \<Rightarrow> 0 | Some n \<Rightarrow> n),
       u_topic = nonempty_or_null (e_topic e),
       u_duration = 0,
       u_wordCount = 0,
       u_sentiment = Neutral \<rparr>"

text \<open>
  The utterances of one entry, each still waiting for its speaker name: one per sentence
  of a sentences array (none if the array is empty), one fallback without such an array.
\<close>

definition entry_slots :: "raw_entry \<Rightarrow> (string \<times> (string \<Rightarrow> utterance)) list" where
  "entry_slots e =
     (case e_sentences e of
        Some ss \<Rightarrow> map (\<lambda>s. (e_speakerId e, expected_sentence_utterance e s)) ss
      | None \<Rightarrow> [(e_speakerId e, expected_fallback e)])"

text \<open>
  All utterances, named by the resolver: it is consulted once for every emitted utterance,
  so speakers are numbered in the order in which they first emit one.
\<close>

definition expected_utterances :: "raw_entry list \<Rightarrow> utterance list" where
  "expected_utterances es =
     (let slots = concat (map entry_slots es);
          ids = map fst slots
      in map (\<lambda>(k, mk). mk (''Speaker '' @ nat_to_string (speaker_number ids k))) slots)"

subsection \<open>Conversation text extractor\<close>

definition expected_line :: "string \<Rightarrow> raw_sentence \<Rightarrow> string list" where
  "expected_line name s =
     (case s_text s of
        JStr t \<Rightarrow> if trim t = [] then [] else [name @ '': '' @ trim t]
      | _ \<Rightarrow> [])"

text \<open>
  Speakers are numbered in the order in which the entries with a sentences array first
  show them; the label has no space before the number.
\<close>

definition expected_lines :: "raw_entry list \<Rightarrow> string list" where
  "expected_lines es =
     (let ids = map e_speakerId (filter (\<lambda>e. e_sentences e \<noteq> None) es)
      in concat (map (\<lambda>e. case e_sentences e of
                             None \<Rightarrow> []
                           | Some ss \<Rightarrow>
                               concat (map (expected_line
                                 (''Speaker'' @ nat_to_string (speaker_number ids (e_speakerId e)))) ss))
                     es))"

text \<open>Lines joined by single newlines: a newline before every line but the first.\<close>

definition joined_by_newlines :: "string list \<Rightarrow> string" where
  "joined_by_newlines ls =
     (case ls of
        [] \<Rightarrow> []
      | l # rest \<Rightarrow> l @ concat (map (\<lambda>x. CHR 0x0A # x) rest))"

subsection \<open>Content analyzer\<close>

text \<open>The sentences that count towards the topic flow, each with its entry's topic.\<close>

definition topic_contributions :: "raw_entry list \<Rightarrow> (string \<times> raw_sentence) list" where
  "topic_contributions es =
     concat (map (\<lambda>e. case e_sentences e of
                         None \<Rightarrow> []
                       | Some ss \<Rightarrow>
                          (case nonempty_or_null (e_topic e) of
                             None \<Rightarrow> []
                           | Some tp \<Rightarrow> map (\<lambda>s. (tp, s)) ss))
                 es)"

text \<open>The distinct elements of a list in the order of their first occurrence.\<close>

definition first_seen :: "'a list \<Rightarrow> 'a list" where
  "first_seen xs = rev (remdups (rev xs))"

definition expected_topic_record :: "(string \<times> raw_sentence) list \<Rightarrow> string \<Rightarrow> topic_record" where
  "expected_topic_record cs tp =
     (let mine = map snd (filter (\<lambda>c. fst c = tp) cs)
      in \<lparr> t_topic = tp,
           t_startTime = (case mine of [] \<Rightarrow> 0 | s # _ \<Rightarrow> expected_seconds (s_start s)),
           t_duration = sum_list (map expected_duration mine),
           t_mentions = length mine \<rparr>)"

definition expected_topic_flow :: "raw_entry list \<Rightarrow> topic_record list" where
  "expected_topic_flow es =
     (let cs = topic_contributions es
      in map (expected_topic_record cs) (first_seen (map fst cs)))"

text \<open>
  Speaker switches as stated: among the entries with a sentences array, those whose
  speaker id differs from that of the one before.
\<close>

fun count_changes :: "string list \<Rightarrow> nat" where
  "count_changes (x # y # rest) = (if x \<noteq> y then 1 else 0) + count_changes (y # rest)"
| "count_changes _ = 0"

definition claimed_switches :: "raw_entry list \<Rightarrow> nat" where
  "claimed_switches es =
     count_changes (map e_speakerId (filter (\<lambda>e. e_sentences e \<noteq> None) es))"

text \<open>The sum of \<^verbatim>\<open>totalTime\<close> over the speakers of an analytics object.\<close>

definition total_speaker_time :: "analysis \<Rightarrow> rat" where
  "total_speaker_time a = sum_list (map (\<lambda>(k, st). st_totalTime st) (speakerStats a))"

subsection \<open>Missing texts\<close>

text \<open>
  A missing text treated as the empty string: the transcript in which every
  \<^verbatim>\<open>sentence.text\<close> that is undefined or null has been replaced by \<^verbatim>\<open>""\<close>, and nothing else
  has changed.
\<close>

definition fill_text :: "jsval \<Rightarrow> jsval" where
  "fill_text v = (case v of JUndefined \<Rightarrow> JStr [] | JNull \<Rightarrow> JStr [] | _ \<Rightarrow> v)"

definition fill_sentence :: "raw_sentence \<Rightarrow> raw_sentence" where
  "fill_sentence s = s\<lparr> s_text := fill_text (s_text s) \<rparr>"

definition fill_entry :: "raw_entry \<Rightarrow> raw_entry" where
  "fill_entry e = e\<lparr> e_sentences := map_option (map fill_sentence) (e_sentences e) \<rparr>"

definition fill_missing :: "transcript_arg \<Rightarrow> transcript_arg" where
  "fill_missing arg =
     (case arg of
        NotAnArray v \<Rightarrow> NotAnArray v
      | EntryArray es \<Rightarrow> EntryArray (map fill_entry es))"

subsection \<open>Concrete transcripts\<close>

definition mk_sentence :: "jsval \<Rightarrow> rat option \<Rightarrow> rat option \<Rightarrow> raw_sentence" where
  "mk_sentence t b e = \<lparr> s_text = t, s_start = b, s_end = e \<rparr>"

text \<open>An entry of the current shape: the legacy fields are absent.\<close>

definition mk_entry :: "string \<Rightarrow> string option \<Rightarrow> raw_sentence list option \<Rightarrow> raw_entry" where
  "mk_entry sid tp ss =
     \<lparr> e_speakerId = sid, e_topic = tp, e_sentences = ss, e_sentence = None, e_text = None,
       e_startTime = None, e_endTime = None \<rparr>"

text \<open>\<^verbatim>\<open>{speakerId:"A", sentences:[{text:"Hi there", start:1000, end:3000}]}\<close>\<close>

definition ex_hi_there :: "raw_entry list" where
  "ex_hi_there = [mk_entry ''A'' None (Some [mk_sentence (JStr ''Hi there'') (Some 1000) (Some 3000)])]"

text \<open>\<^verbatim>\<open>{speakerId:"A", sentences:[{start:1000, end:3000}]}\<close>: a sentence without text.\<close>

definition ex_no_text :: "raw_entry list" where
  "ex_no_text = [mk_entry ''A'' None (Some [mk_sentence JUndefined (Some 1000) (Some 3000)])]"

text \<open>\<^verbatim>\<open>{speakerId:"A", sentences:[{text:5, start:1000, end:3000}]}\<close>: a text that is a number.\<close>

definition ex_number_text :: "raw_entry list" where
  "ex_number_text = [mk_entry ''A'' None (Some [mk_sentence (JNum 5) (Some 1000) (Some 3000)])]"

text \<open>\<^verbatim>\<open>{speakerId:"A", sentences:[]}\<close>: an entry whose sentences array is empty.\<close>

definition ex_empty_sentences :: "raw_entry list" where
  "ex_empty_sentences = [mk_entry ''A'' None (Some [])]"

text \<open>\<^verbatim>\<open>{speakerId:"A", sentence:"", text:"legacy"}\<close>: a legacy entry with an empty sentence.\<close>

definition ex_legacy :: "raw_entry list" where
  "ex_legacy =
     [\<lparr> e_speakerId = ''A'', e_topic = None, e_sentences = None, e_sentence = Some '''',
        e_text = Some ''legacy'', e_startTime = Some 4, e_endTime = None \<rparr>]"

text \<open>Sentences \<^verbatim>\<open>"  "\<close> and \<^verbatim>\<open>"Hello"\<close> of a single speaker \<^verbatim>\<open>X\<close>.\<close>

definition ex_blank_hello :: "raw_entry list" where
  "ex_blank_hello =
     [mk_entry ''X'' None (Some [mk_sentence (JStr ''  '') None None,
                                 mk_sentence (JStr ''Hello'') None None])]"

text \<open>
  Speaker \<^verbatim>\<open>X\<close> says \<^verbatim>\<open>Hi\<close>, speaker \<^verbatim>\<open>Y\<close> says \<^verbatim>\<open>" Hello there "\<close> and a blank sentence, a legacy
  entry of speaker \<^verbatim>\<open>Z\<close> has no sentences array, and \<^verbatim>\<open>X\<close> says \<^verbatim>\<open>Bye\<close>.
\<close>

definition ex_dialogue :: "raw_entry list" where
  "ex_dialogue =
     [mk_entry ''X'' None (Some [mk_sentence (JStr ''Hi'') None None]),
      mk_entry ''Y'' None (Some [mk_sentence (JStr '' Hello there '') None None,
                                 mk_sentence (JStr ''   '') None None]),
      \<lparr> e_speakerId = ''Z'', e_topic = None, e_sentences = None, e_sentence = None,
        e_text = Some ''ignored'', e_startTime = None, e_endTime = None \<rparr>,
      mk_entry ''X'' None (Some [mk_sentence (JStr ''Bye'') None None])]"

text \<open>
  Two entries on the topic pricing, of 5 and 7 seconds, with an entry on another topic
  between them.
\<close>

definition ex_pricing :: "raw_entry list" where
  "ex_pricing =
     [mk_entry ''A'' (Some ''pricing'') (Some [mk_sentence (JStr ''a'') (Some 1000) (Some 6000)]),
      mk_entry ''B'' (Some ''intro'') (Some [mk_sentence (JStr ''b'') (Some 6000) (Some 8000)]),
      mk_entry ''A'' (Some ''pricing'') (Some [mk_sentence (JStr ''c'') (Some 10000) (Some 17000)])]"

text \<open>A speaker whose id is the empty string, followed by speaker \<^verbatim>\<open>A\<close>.\<close>

definition ex_empty_id :: "raw_entry list" where
  "ex_empty_id =
     [mk_entry '''' None (Some [mk_sentence (JStr ''hello'') (Some 1000) (Some 2000)]),
      mk_entry ''A'' None (Some [mk_sentence (JStr ''hi'') (Some 2000) (Some 3000)])]"

text \<open>A speaker whose id is \<^verbatim>\<open>constructor\<close>, with one sentence of 2 seconds.\<close>

definition ex_constructor :: "raw_entry list" where
  "ex_constructor =
     [mk_entry ''constructor'' None (Some [mk_sentence (JStr ''hi'') (Some 1000) (Some 3000)])]"

text \<open>
  Speaker \<^verbatim>\<open>A\<close> on the topic intro: a sentence without text and the sentence
  \<^verbatim>\<open>Is this good?\<close>; then speaker \<^verbatim>\<open>B\<close> with a sentence whose text is null.
\<close>

definition ex_missing_texts :: "raw_entry list" where
  "ex_missing_texts =
     [mk_entry ''A'' (Some ''intro'')
        (Some [mk_sentence JUndefined (Some 1000) (Some 3000),
               mk_sentence (JStr ''Is this good?'') (Some 3000) (Some 5000)]),
      mk_entry ''B'' None (Some [mk_sentence JNull (Some 5000) (Some 6000)])]"

text \<open>The same transcript with the empty string written where a text is missing.\<close>

definition ex_empty_texts :: "raw_entry list" where
  "ex_empty_texts =
     [mk_entry ''A'' (Some ''intro'')
        (Some [mk_sentence (JStr []) (Some 1000) (Some 3000),
               mk_sentence (JStr ''Is this good?'') (Some 3000) (Some 5000)]),
      mk_entry ''B'' None (Some [mk_sentence (JStr []) (Some 5000) (Some 6000)])]"

section \<open>Auxiliary definitions for the proofs\<close>

text \<open>
  Both resolvers allocate labels in the same way and differ in the format of the label
  only. \<open>alloc_label\<close> is that common shape, \<open>alloc_all\<close> a run of lookups.
\<close>

definition alloc_label :: "(nat \<Rightarrow> string) \<Rightarrow> string \<Rightarrow> speaker_map \<Rightarrow> string \<times> speaker_map" where
  "alloc_label fmt k m =
     (case map_of m k of
        None \<Rightarrow> (fmt (length m + 1), m @ [(k, fmt (length m + 1))])
      | Some l \<Rightarrow> (l, m))"

fun alloc_all :: "(nat \<Rightarrow> string) \<Rightarrow> string list \<Rightarrow> speaker_map \<Rightarrow> string list \<times> speaker_map" where
  "alloc_all fmt [] m = ([], m)"
| "alloc_all fmt (k # ks) m =
     (case alloc_label fmt k m of (l, m') \<Rightarrow>
        (case alloc_all fmt ks m' of (ls, m'') \<Rightarrow> (l # ls, m'')))"

definition spaced_label :: "nat \<Rightarrow> string" where
  "spaced_label n = ''Speaker '' @ nat_to_string n"

definition plain_label :: "nat \<Rightarrow> string" where
  "plain_label n = ''Speaker'' @ nat_to_string n"

text \<open>Slots filled with their names, pairwise.\<close>

definition apply_slots :: "(string \<times> (string \<Rightarrow> utterance)) list \<Rightarrow> string list \<Rightarrow> utterance list" where
  "apply_slots slots names = map (\<lambda>((k, mk), l). mk l) (zip slots names)"

text \<open>The lines of one entry under a given label, and of a list of entries paired with labels.\<close>

definition entry_lines :: "string \<Rightarrow> raw_entry \<Rightarrow> string list" where
  "entry_lines name e =
     (case e_sentences e of
        None \<Rightarrow> []
      | Some ss \<Rightarrow> concat (map (expected_line name) ss))"

definition zip_lines :: "raw_entry list \<Rightarrow> string list \<Rightarrow> string list" where
  "zip_lines es names = concat (map (\<lambda>(e, l). entry_lines l e) (zip es names))"

definition bearing :: "raw_entry list \<Rightarrow> raw_entry list" where
  "bearing es = filter (\<lambda>e. e_sentences e \<noteq> None) es"

text \<open>One sentence added to the topic flow under a topic that is a non-empty string.\<close>

definition add_contribution :: "string \<times> raw_sentence \<Rightarrow> topic_record list \<Rightarrow> topic_record list" where
  "add_contribution c flow =
     (case find (\<lambda>t. t_topic t = fst c) flow of
        Some existing \<Rightarrow>
          update_first (\<lambda>t. t_topic t = fst c)
            (\<lambda>t. t\<lparr> t_duration := t_duration t + sentence_duration (snd c),
                     t_mentions := t_mentions t + 1 \<rparr>) flow
      | None \<Rightarrow>
          flow @ [\<lparr> t_topic = fst c,
                    t_startTime = ms_to_seconds (s_start (snd c)),
                    t_duration = sentence_duration (snd c),
                    t_mentions = 1 \<rparr>])"

text \<open>The topic contributions of one entry.\<close>

definition entry_contributions :: "raw_entry \<Rightarrow> (string \<times> raw_sentence) list" where
  "entry_contributions e =
     (case e_sentences e of
        None \<Rightarrow> []
      | Some ss \<Rightarrow>
         (case nonempty_or_null (e_topic e) of
            None \<Rightarrow> []
          | Some tp \<Rightarrow> map (\<lambda>s. (tp, s)) ss))"

text \<open>The own keys are distinct and the talk times add up to the total duration.\<close>

definition time_invariant :: "analysis \<Rightarrow> bool" where
  "time_invariant a \<longleftrightarrow>
     distinct (map fst (speakerStats a)) \<and> total_speaker_time a = totalDuration a"


section \<open>Strings\<close>

lemma includes_str_iff: "includes_str xs w \<longleftrightarrow> (\<exists>pre post. xs = pre @ w @ post)"
proof (induction xs)
  case Nil
  then show ?case by auto
next
  case (Cons c cs)
  show ?case
  proof
    assume "includes_str (c # cs) w"
    then consider "prefix w (c # cs)" | "includes_str cs w" by auto
    then show "\<exists>pre post. c # cs = pre @ w @ post"
    proof cases
      case 1
      then obtain post where "c # cs = w @ post" by (auto simp: prefix_def)
      then have "c # cs = [] @ w @ post" by simp
      then show ?thesis by blast
    next
      case 2
      with Cons.IH obtain pre post where "cs = pre @ w @ post" by blast
      then have "c # cs = (c # pre) @ w @ post" by simp
      then show ?thesis by blast
    qed
  next
    assume "\<exists>pre post. c # cs = pre @ w @ post"
    then obtain pre post where eq: "c # cs = pre @ w @ post" by blast
    show "includes_str (c # cs) w"
    proof (cases pre)
      case Nil
      with eq have "prefix w (c # cs)" by (simp add: prefix_def)
      then show ?thesis by simp
    next
      case (Cons p ps)
      with eq have "cs = ps @ w @ post" by simp
      with Cons.IH have "includes_str cs w" by blast
      then show ?thesis by simp
    qed
  qed
qed

subsection \<open>The code's lower case and the table of letters\<close>

lemma capital_letters_codes: "capital_letters = map char_of [65..<91::nat]"
  by code_simp

lemma capital_range:
  "\<forall>u \<in> set capital_letters. 65 \<le> (of_char u :: nat) \<and> (of_char u :: nat) \<le> 90"
  by code_simp

lemma small_range:
  "\<forall>l \<in> set small_letters. 97 \<le> (of_char l :: nat) \<and> (of_char l :: nat) \<le> 122"
  by code_simp

lemma capital_lower: "\<forall>u \<in> set capital_letters. toLowerChar u = fold_case u"
  by code_simp

lemma capital_by_code:
  assumes "65 \<le> (of_char c :: nat)" and "(of_char c :: nat) \<le> 90"
  shows "c \<in> set capital_letters"
proof -
  from assms have "(of_char c :: nat) \<in> {65..<91}" by simp
  then have "(of_char c :: nat) \<in> set [65..<91]" by (simp only: set_upt)
  then have "char_of (of_char c :: nat) \<in> char_of ` set [65..<91::nat]" by (rule imageI)
  then have "c \<in> char_of ` set [65..<91::nat]" by (simp only: char_of_char)
  then show ?thesis by (simp only: capital_letters_codes set_map)
qed

lemma fold_case_other:
  assumes "c \<notin> set capital_letters"
  shows "fold_case c = c"
proof -
  have "length capital_letters = length small_letters"
    by (simp add: capital_letters_def small_letters_def)
  with assms have "map_of (zip capital_letters small_letters) c = None"
    by (simp add: map_of_zip_is_None)
  then show ?thesis by (simp add: fold_case_def)
qed

lemma fold_case_matches:
  assumes l: "l \<in> set small_letters"
  shows "toLowerChar c = l \<longleftrightarrow> fold_case c = l"
proof (cases "65 \<le> (of_char c :: nat) \<and> (of_char c :: nat) \<le> 90")
  case True
  then have "c \<in> set capital_letters" by (simp add: capital_by_code)
  with capital_lower show ?thesis by simp
next
  case False
  with capital_range have "c \<notin> set capital_letters" by blast
  then have fold: "fold_case c = c" by (rule fold_case_other)
  from l small_range have lr: "97 \<le> (of_char l :: nat)" "(of_char l :: nat) \<le> 122"
    by blast+
  show ?thesis
  proof (cases "192 \<le> (of_char c :: nat) \<and> (of_char c :: nat) \<le> 222
                  \<and> (of_char c :: nat) \<noteq> 215")
    case True
    with False have low: "toLowerChar c = char_of ((of_char c :: nat) + 32)"
      by (simp add: toLowerChar_def Let_def)
    from True have "(of_char (toLowerChar c) :: nat) = of_char c + 32"
      by (simp add: low)
    with True lr have "toLowerChar c \<noteq> l" by auto
    moreover from True lr have "c \<noteq> l" by auto
    ultimately show ?thesis by (simp add: fold)
  next
    case other: False
    with False have "toLowerChar c = c"
      by (auto simp: toLowerChar_def Let_def)
    then show ?thesis by (simp add: fold)
  qed
qed

lemma map_matches:
  assumes "set w \<subseteq> set small_letters"
  shows "map toLowerChar part = w \<longleftrightarrow> map fold_case part = w"
  using assms
proof (induction part arbitrary: w)
  case Nil
  then show ?case by simp
next
  case (Cons c cs)
  show ?case
  proof (cases w)
    case Nil
    then show ?thesis by simp
  next
    case (Cons l ls)
    with Cons.prems have l: "l \<in> set small_letters" and ls: "set ls \<subseteq> set small_letters"
      by simp_all
    from Cons.IH [OF ls] fold_case_matches [OF l] Cons show ?thesis by simp
  qed
qed

lemma small_words:
  "\<forall>w \<in> set positiveWords \<union> set negativeWords.
      set w \<subseteq> set small_letters \<and> map fold_case w = w"
  by code_simp

lemma includes_lower_iff:
  assumes "set w \<subseteq> set small_letters" and "map fold_case w = w"
  shows "includes_str (toLowerCase txt) w \<longleftrightarrow> contains_ci txt w"
proof
  assume "includes_str (toLowerCase txt) w"
  then obtain pre post where "map toLowerChar txt = pre @ w @ post"
    by (auto simp: includes_str_iff toLowerCase_def)
  then obtain a vs where 1: "txt = a @ vs" "map toLowerChar vs = w @ post"
    by (metis map_eq_append_conv)
  then obtain b c where 2: "vs = b @ c" "map toLowerChar b = w"
    by (metis map_eq_append_conv)
  from 2 assms have "map fold_case b = map fold_case w"
    by (simp add: map_matches)
  moreover from 1 2 have "txt = a @ b @ c" by simp
  ultimately show "contains_ci txt w"
    unfolding contains_ci_def by blast
next
  assume "contains_ci txt w"
  then obtain a b c where parts: "txt = a @ b @ c" and "map fold_case b = map fold_case w"
    unfolding contains_ci_def by blast
  with assms have "map toLowerChar b = w"
    by (simp add: map_matches)
  with parts have "toLowerCase txt = toLowerCase a @ w @ toLowerCase c"
    by (simp add: toLowerCase_def)
  then show "includes_str (toLowerCase txt) w"
    unfolding includes_str_iff by blast
qed

lemma filter_words_eq:
  assumes "\<forall>w \<in> set ws. set w \<subseteq> set small_letters \<and> map fold_case w = w"
  shows "filter (\<lambda>word. includes_str (toLowerCase txt) word) ws = filter (contains_ci txt) ws"
  using assms by (intro filter_cong) (auto simp: includes_lower_iff)

lemma analyzeSentence_string:
  "analyzeSentence (JStr txt) = Inr (claimed_sentiment txt)"
proof (cases "txt = []")
  case True
  have "\<not> contains_ci [] w" if "w \<in> set claimed_positive_words \<union> set claimed_negative_words" for w
    using that
    unfolding contains_ci_def claimed_positive_words_def claimed_negative_words_def
    by auto
  then have "filter (contains_ci []) claimed_positive_words = []"
    and "filter (contains_ci []) claimed_negative_words = []"
    by (auto simp: filter_empty_conv)
  with True show ?thesis by (simp add: analyzeSentence_def claimed_sentiment_def)
next
  case False
  have p: "claimed_positive_words = positiveWords"
    by (simp add: claimed_positive_words_def positiveWords_def)
  have n: "claimed_negative_words = negativeWords"
    by (simp add: claimed_negative_words_def negativeWords_def)
  from small_words
  have "\<forall>w \<in> set positiveWords. set w \<subseteq> set small_letters \<and> map fold_case w = w"
    and "\<forall>w \<in> set negativeWords. set w \<subseteq> set small_letters \<and> map fold_case w = w"
    by blast+
  with False show ?thesis
    by (simp add: analyzeSentence_def claimed_sentiment_def p n filter_words_eq Let_def)
qed

section \<open>The resolvers\<close>

lemma getSpeakerName_alloc: "getSpeakerName k m = alloc_label spaced_label k m"
  by (simp add: getSpeakerName_def alloc_label_def spaced_label_def Let_def split: option.splits)

lemma extract_speaker_alloc: "extract_speaker k m = alloc_label plain_label k m"
  by (simp add: extract_speaker_def alloc_label_def plain_label_def Let_def split: option.splits)

lemma extract_speaker_ai_same: "extract_speaker_ai k m = extract_speaker k m"
  by (simp add: extract_speaker_ai_def extract_speaker_def Let_def split: option.splits)

lemma resolve_all_alloc: "resolve_all ids m = alloc_all spaced_label ids m"
  by (induction ids arbitrary: m) (simp_all add: getSpeakerName_alloc)

lemma alloc_all_append:
  "alloc_all fmt (xs @ ys) m =
     (fst (alloc_all fmt xs m) @ fst (alloc_all fmt ys (snd (alloc_all fmt xs m))),
      snd (alloc_all fmt ys (snd (alloc_all fmt xs m))))"
  by (induction xs arbitrary: m) (auto split: prod.splits)

lemma alloc_all_length: "length (fst (alloc_all fmt ids m)) = length ids"
  by (induction ids arbitrary: m) (simp_all add: case_prod_beta)

lemma first_seen_snoc:
  "first_seen (xs @ [x]) = (if x \<in> set xs then first_seen xs else first_seen xs @ [x])"
  by (simp add: first_seen_def)

lemma first_seen_set [simp]: "set (first_seen xs) = set xs"
  by (simp add: first_seen_def)

lemma first_seen_distinct [simp]: "distinct (first_seen xs)"
  by (simp add: first_seen_def)

lemma first_seen_length: "length (first_seen xs) = card (set xs)"
  by (metis first_seen_set first_seen_distinct distinct_card)

lemma speaker_number_old:
  "k \<in> set ids \<Longrightarrow> speaker_number (ids @ [x]) k = speaker_number ids k"
  by (simp add: speaker_number_def)

lemma speaker_number_new:
  "x \<notin> set ids \<Longrightarrow> speaker_number (ids @ [x]) x = Suc (card (set ids))"
proof -
  assume "x \<notin> set ids"
  then have "takeWhile (\<lambda>y. y \<noteq> x) (ids @ [x]) = ids"
    by (subst takeWhile_append2) auto
  then show ?thesis by (simp add: speaker_number_def)
qed

lemma map_of_keyed:
  "map_of (map (\<lambda>k. (k, f k)) xs) x = (if x \<in> set xs then Some (f x) else None)"
  by (induction xs) auto

lemma alloc_all_closed:
  "alloc_all fmt ids [] =
     (map (\<lambda>k. fmt (speaker_number ids k)) ids,
      map (\<lambda>k. (k, fmt (speaker_number ids k))) (first_seen ids))"
proof (induction ids rule: rev_induct)
  case Nil
  then show ?case by (simp add: first_seen_def)
next
  case (snoc x ids)
  let ?m = "map (\<lambda>k. (k, fmt (speaker_number ids k))) (first_seen ids)"
  have old: "map (\<lambda>k. fmt (speaker_number (ids @ [x]) k)) ids = map (\<lambda>k. fmt (speaker_number ids k)) ids"
    by (simp add: speaker_number_old)
  have oldm: "map (\<lambda>k. (k, fmt (speaker_number (ids @ [x]) k))) (first_seen ids) = ?m"
    by (simp add: speaker_number_old)
  show ?case
  proof (cases "x \<in> set ids")
    case True
    then have "alloc_label fmt x ?m = (fmt (speaker_number ids x), ?m)"
      by (simp add: alloc_label_def map_of_keyed)
    with True show ?thesis
      by (simp add: alloc_all_append snoc.IH first_seen_snoc old oldm speaker_number_old)
  next
    case False
    then have "alloc_label fmt x ?m = (fmt (Suc (card (set ids))), ?m @ [(x, fmt (Suc (card (set ids))))])"
      by (simp add: alloc_label_def map_of_keyed first_seen_length)
    with False show ?thesis
      by (simp add: alloc_all_append snoc.IH first_seen_snoc old oldm speaker_number_new)
  qed
qed

lemma alloc_label_prefix: "prefix m (snd (alloc_label fmt k m))"
  by (simp add: alloc_label_def split: option.splits)

lemma alloc_all_prefix: "prefix m (snd (alloc_all fmt ks m))"
proof (induction ks arbitrary: m)
  case Nil
  then show ?case by simp
next
  case (Cons k ks)
  have "prefix m (snd (alloc_label fmt k m))" by (rule alloc_label_prefix)
  also have "prefix \<dots> (snd (alloc_all fmt ks (snd (alloc_label fmt k m))))" by (rule Cons.IH)
  finally show ?case by (simp add: case_prod_beta)
qed

lemma takeWhile_first_occurrence:
  assumes "i < length ids" and "ids ! i \<notin> set (take i ids)"
  shows "takeWhile (\<lambda>y. y \<noteq> ids ! i) ids = take i ids"
proof -
  have "ids = take i ids @ ids ! i # drop (Suc i) ids"
    using assms(1) by (rule id_take_nth_drop)
  then have "takeWhile (\<lambda>y. y \<noteq> ids ! i) ids
               = takeWhile (\<lambda>y. y \<noteq> ids ! i) (take i ids @ ids ! i # drop (Suc i) ids)"
    by simp
  also have "\<dots> = take i ids"
    using assms(2) by (subst takeWhile_append2) auto
  finally show ?thesis .
qed

lemma speaker_number_first:
  assumes "i < length ids" and "ids ! i \<notin> set (take i ids)"
  shows "speaker_number ids (ids ! i) = card (set (take (Suc i) ids))"
proof -
  have "set (take (Suc i) ids) = insert (ids ! i) (set (take i ids))"
    using assms(1) by (simp add: take_Suc_conv_app_nth)
  with assms show ?thesis
    by (simp add: speaker_number_def takeWhile_first_occurrence)
qed

section \<open>The normalizer\<close>

lemma split_space_nonempty: "split_space t \<noteq> []"
  by (induction t) (auto split: list.splits)

lemma split_space_length:
  "length (split_space t) = Suc (length (filter (\<lambda>c. c = CHR '' '') t))"
proof (induction t)
  case Nil
  then show ?case by simp
next
  case (Cons c cs)
  then show ?case
    using split_space_nonempty [of cs] by (cases "split_space cs") auto
qed

lemma ms_to_seconds_expected: "ms_to_seconds x = expected_seconds x"
  by (cases x) (simp_all add: ms_to_seconds_def expected_seconds_def)

lemma sentence_duration_expected: "sentence_duration s = expected_duration s"
  by (cases "s_start s"; cases "s_end s")
     (auto simp: sentence_duration_def expected_duration_def)

lemma topic_or_null_expected: "topic_or_null t = nonempty_or_null t"
  by (cases t) (simp_all add: topic_or_null_def nonempty_or_null_def)

lemma word_count_expected:
  assumes "text_well_typed v"
  shows "(if truthy v then split_length v else Inr 0) = Inr (expected_word_count v)"
  using assms
  by (cases v) (simp_all add: text_well_typed_def split_length_def expected_word_count_def
                              split_space_length)

lemma sentiment_expected:
  assumes "text_well_typed v"
  shows "analyzeSentence v = Inr (expected_sentiment v)"
proof (cases v)
  case (JStr t)
  then show ?thesis by (simp add: analyzeSentence_string expected_sentiment_def)
qed (use assms in \<open>simp_all add: analyzeSentence_def expected_sentiment_def text_well_typed_def\<close>)

lemma sentence_text_expected:
  assumes "text_well_typed v"
  shows "or_else v (JStr ''No text available'')
           = (case v of JStr t \<Rightarrow> if t = [] then JStr ''No text available'' else JStr t
                      | _ \<Rightarrow> JStr ''No text available'')"
  using assms by (cases v) (simp_all add: or_else_def text_well_typed_def)

lemma sentence_utterance_expected:
  assumes "text_well_typed (s_text s)"
  shows "sentence_utterance e s m =
           Inr (expected_sentence_utterance e s (fst (alloc_label spaced_label (e_speakerId e) m)),
                snd (alloc_label spaced_label (e_speakerId e) m))"
  using assms
  by (simp add: sentence_utterance_def expected_sentence_utterance_def getSpeakerName_alloc
                word_count_expected sentiment_expected sentence_text_expected
                ms_to_seconds_expected sentence_duration_expected topic_or_null_expected
                case_prod_beta)

lemma fallback_utterance_expected:
  "fallback_utterance e m =
     (expected_fallback e (fst (alloc_label spaced_label (e_speakerId e) m)),
      snd (alloc_label spaced_label (e_speakerId e) m))"
proof -
  have s: "(case str_or (e_sentence e) (str_or (e_text e) (Some ''No content available'')) of
              Some s \<Rightarrow> JStr s | None \<Rightarrow> JUndefined)
           = JStr (case nonempty_or_null (e_sentence e) of
                     Some s \<Rightarrow> s
                   | None \<Rightarrow> (case nonempty_or_null (e_text e) of
                                Some s \<Rightarrow> s | None \<Rightarrow> ''No content available''))"
    by (cases "e_sentence e"; cases "e_text e") (simp_all add: str_or_def nonempty_or_null_def)
  have n: "num_or_zero x = (case x of None \<Rightarrow> 0 | Some n \<Rightarrow> n)" for x
    by (cases x) (simp_all add: num_or_zero_def)
  show ?thesis
    by (simp add: fallback_utterance_def expected_fallback_def getSpeakerName_alloc s n
                  topic_or_null_expected case_prod_beta)
qed

lemma apply_slots_append:
  assumes "length s1 = length l1"
  shows "apply_slots (s1 @ s2) (l1 @ l2) = apply_slots s1 l1 @ apply_slots s2 l2"
  using assms by (simp add: apply_slots_def)

lemma process_sentences_expected:
  assumes "list_all (\<lambda>s. text_well_typed (s_text s)) ss"
  shows "process_sentences e ss (out, m) =
           Inr (out @ apply_slots (map (\<lambda>s. (e_speakerId e, expected_sentence_utterance e s)) ss)
                        (fst (alloc_all spaced_label (map (\<lambda>s. e_speakerId e) ss) m)),
                snd (alloc_all spaced_label (map (\<lambda>s. e_speakerId e) ss) m))"
  using assms
proof (induction ss arbitrary: out m)
  case Nil
  then show ?case by (simp add: apply_slots_def)
next
  case (Cons s ss)
  then show ?case
    by (simp add: sentence_utterance_expected apply_slots_def case_prod_beta)
qed

lemma process_entries_expected:
  assumes "well_typed es"
  shows "process_entries es (out, m) =
           Inr (out @ apply_slots (concat (map entry_slots es))
                        (fst (alloc_all spaced_label (map fst (concat (map entry_slots es))) m)),
                snd (alloc_all spaced_label (map fst (concat (map entry_slots es))) m))"
  using assms
proof (induction es arbitrary: out m)
  case Nil
  then show ?case by (simp add: apply_slots_def)
next
  case (Cons e es)
  from Cons.prems have wt: "entry_well_typed e" and rest: "well_typed es"
    by (simp_all add: well_typed_def)
  let ?ids = "map fst (entry_slots e)"
  let ?m1 = "snd (alloc_all spaced_label ?ids m)"
  let ?l1 = "fst (alloc_all spaced_label ?ids m)"
  have step: "process_entries (e # es) (out, m)
                = process_entries es (out @ apply_slots (entry_slots e) ?l1, ?m1)"
  proof (cases "e_sentences e")
    case None
    then show ?thesis
      by (simp add: fallback_utterance_expected entry_slots_def apply_slots_def case_prod_beta)
  next
    case (Some ss)
    with wt have "list_all (\<lambda>s. text_well_typed (s_text s)) ss"
      by (simp add: entry_well_typed_def)
    with Some show ?thesis
      by (simp add: process_sentences_expected entry_slots_def comp_def)
  qed
  have len: "length (entry_slots e) = length ?l1"
    by (simp add: alloc_all_length)
  show ?case
    unfolding step Cons.IH [OF rest]
    by (simp add: alloc_all_append apply_slots_append [OF len])
qed

lemma apply_slots_closed:
  "apply_slots slots (map (f \<circ> fst) slots) = map (\<lambda>(k, mk). mk (f k)) slots"
  by (induction slots) (auto simp: apply_slots_def)

lemma normalizer_refines:
  assumes "well_typed es"
  shows "processTranscriptEntries (EntryArray es) = Inr (expected_utterances es)"
  using assms
  by (simp add: processTranscriptEntries_def process_entries_expected alloc_all_closed
                expected_utterances_def apply_slots_closed spaced_label_def Let_def)

lemma expected_utterances_length:
  "length (expected_utterances es)
     = sum_list (map (\<lambda>e. case e_sentences e of Some ss \<Rightarrow> length ss | None \<Rightarrow> 1) es)"
proof -
  have "length (entry_slots e) = (case e_sentences e of Some ss \<Rightarrow> length ss | None \<Rightarrow> 1)" for e
    by (simp add: entry_slots_def split: option.splits)
  then show ?thesis
    by (simp add: expected_utterances_def Let_def length_concat comp_def)
qed

section \<open>The extractor\<close>

lemma extract_sentences_expected:
  assumes "list_all (\<lambda>s. text_well_typed (s_text s)) ss"
  shows "extract_sentences name ss conv = Inr (conv @ concat (map (expected_line name) ss))"
  using assms
proof (induction ss arbitrary: conv)
  case Nil
  then show ?case by simp
next
  case (Cons s ss)
  from Cons.prems have wt: "text_well_typed (s_text s)"
    and rest: "list_all (\<lambda>s. text_well_typed (s_text s)) ss"
    by simp_all
  show ?case
    using wt Cons.IH [OF rest]
    by (cases "s_text s")
       (simp_all add: optional_trim_def expected_line_def text_well_typed_def)
qed

lemma zip_lines_Cons: "zip_lines (e # es) (l # ls) = entry_lines l e @ zip_lines es ls"
  by (simp add: zip_lines_def)

lemma extract_entries_expected:
  assumes "well_typed es"
  shows "extract_entries es (conv, m) =
           Inr (conv @ zip_lines (bearing es)
                         (fst (alloc_all plain_label (map e_speakerId (bearing es)) m)),
                snd (alloc_all plain_label (map e_speakerId (bearing es)) m))"
  using assms
proof (induction es arbitrary: conv m)
  case Nil
  then show ?case by (simp add: bearing_def zip_lines_def)
next
  case (Cons e es)
  from Cons.prems have wt: "entry_well_typed e" and rest: "well_typed es"
    by (simp_all add: well_typed_def)
  show ?case
  proof (cases "e_sentences e")
    case None
    then have "bearing (e # es) = bearing es" by (simp add: bearing_def)
    with None Cons.IH [OF rest] show ?thesis by simp
  next
    case (Some ss)
    then have b: "bearing (e # es) = e # bearing es" by (simp add: bearing_def)
    from Some wt have ok: "list_all (\<lambda>s. text_well_typed (s_text s)) ss"
      by (simp add: entry_well_typed_def)
    have lines: "entry_lines name e = concat (map (expected_line name) ss)" for name
      by (simp add: entry_lines_def Some)
    show ?thesis
      unfolding b
      by (simp add: Some extract_speaker_alloc extract_sentences_expected [OF ok]
                    Cons.IH [OF rest] zip_lines_Cons lines case_prod_beta)
  qed
qed

lemma zip_lines_closed:
  "zip_lines es (map (f \<circ> e_speakerId) es)
     = concat (map (\<lambda>e. entry_lines (f (e_speakerId e)) e) es)"
  by (induction es) (simp_all add: zip_lines_def)

lemma concat_bearing:
  "concat (map (\<lambda>e. entry_lines (g e) e) (bearing es))
     = concat (map (\<lambda>e. entry_lines (g e) e) es)"
  by (induction es) (auto simp: bearing_def entry_lines_def)

lemma expected_lines_alt:
  "expected_lines es =
     concat (map (\<lambda>e. entry_lines (plain_label (speaker_number (map e_speakerId (bearing es))
                                                   (e_speakerId e))) e) es)"
  by (simp only: expected_lines_def entry_lines_def bearing_def plain_label_def Let_def)

lemma extractor_refines:
  assumes "well_typed es"
  shows "extractConversationText (EntryArray es) = Inr (join_newline (expected_lines es))"
proof -
  let ?ids = "map e_speakerId (bearing es)"
  have "extract_entries es ([], []) =
          Inr (zip_lines (bearing es)
                 (map ((\<lambda>k. plain_label (speaker_number ?ids k)) \<circ> e_speakerId) (bearing es)),
               snd (alloc_all plain_label ?ids []))"
    by (simp add: extract_entries_expected [OF assms] alloc_all_closed)
  also have "zip_lines (bearing es)
               (map ((\<lambda>k. plain_label (speaker_number ?ids k)) \<circ> e_speakerId) (bearing es))
             = expected_lines es"
    unfolding zip_lines_closed expected_lines_alt by (rule concat_bearing)
  finally show ?thesis
    by (simp add: extractConversationText_def)
qed

text \<open>No trailing newline.\<close>

lemma trim_last:
  assumes "trim t \<noteq> []"
  shows "\<not> is_js_space (last (trim t))"
proof -
  let ?xs = "dropWhile is_js_space (rev (dropWhile is_js_space t))"
  from assms have ne: "?xs \<noteq> []" by (simp add: trim_def)
  then have "\<not> is_js_space (hd ?xs)" by (rule hd_dropWhile)
  moreover have "last (trim t) = hd ?xs"
    using ne by (simp add: trim_def last_rev)
  ultimately show ?thesis by simp
qed

lemma expected_line_last:
  assumes "l \<in> set (expected_line name s)"
  shows "l \<noteq> [] \<and> \<not> is_js_space (last l)"
proof (cases "s_text s")
  case (JStr t)
  with assms have ne: "trim t \<noteq> []" and l: "l = name @ '': '' @ trim t"
    by (auto simp: expected_line_def split: if_splits)
  from ne have "last l = last (trim t)" by (simp add: l)
  with trim_last [OF ne] l show ?thesis by simp
qed (use assms in \<open>simp_all add: expected_line_def\<close>)

lemma expected_lines_last:
  assumes "l \<in> set (expected_lines es)"
  shows "l \<noteq> [] \<and> \<not> is_js_space (last l)"
  using assms expected_line_last
  by (auto simp: expected_lines_def Let_def split: option.splits)

lemma join_newline_last:
  assumes "ls \<noteq> []" and "last ls \<noteq> []"
  shows "join_newline ls \<noteq> [] \<and> last (join_newline ls) = last (last ls)"
  using assms
proof (induction ls rule: join_newline.induct)
  case 1
  then show ?case by simp
next
  case (2 l)
  then show ?case by simp
next
  case (3 l v va)
  then show ?case by simp
qed

lemma join_newline_joined: "join_newline ls = joined_by_newlines ls"
  by (induction ls rule: join_newline.induct) (simp_all add: joined_by_newlines_def)

lemma no_trailing_newline:
  "join_newline (expected_lines es) = []
   \<or> last (join_newline (expected_lines es)) \<noteq> CHR 0x0A"
proof (cases "expected_lines es = []")
  case True
  then show ?thesis by simp
next
  case False
  then have "last (expected_lines es) \<in> set (expected_lines es)" by simp
  then have ok: "last (expected_lines es) \<noteq> []"
    and sp: "\<not> is_js_space (last (last (expected_lines es)))"
    using expected_lines_last by blast+
  have "is_js_space (CHR 0x0A)" by (simp add: is_js_space_def)
  with sp have "last (last (expected_lines es)) \<noteq> CHR 0x0A" by metis
  with join_newline_last [OF False ok] show ?thesis by simp
qed
section \<open>The analyzer\<close>

subsection \<open>It returns on inputs of the documented shape\<close>

lemma analyze_sentence_total:
  assumes "text_well_typed (s_text s)"
  shows "\<exists>a'. analyze_sentence e s a = Inr a'"
proof (cases "s_text s")
  case (JStr t)
  then show ?thesis
    by (cases "t = []")
       (simp_all add: analyze_sentence_def or_else_def split_length_def analyzeSentence_string
                   Let_def)
qed (use assms in \<open>simp_all add: analyze_sentence_def or_else_def split_length_def
                                  analyzeSentence_string text_well_typed_def Let_def\<close>)

lemma analyze_sentences_total:
  assumes "list_all (\<lambda>s. text_well_typed (s_text s)) ss"
  shows "\<exists>a'. analyze_sentences e ss a = Inr a'"
  using assms
proof (induction ss arbitrary: a)
  case Nil
  then show ?case by simp
next
  case (Cons s ss)
  from Cons.prems have "text_well_typed (s_text s)" by simp
  then obtain a1 where "analyze_sentence e s a = Inr a1"
    using analyze_sentence_total by blast
  moreover from Cons.prems Cons.IH obtain a2 where "analyze_sentences e ss a1 = Inr a2"
    by auto
  ultimately show ?case by simp
qed

lemma analyze_entries_total:
  assumes "well_typed es"
  shows "\<exists>st'. analyze_entries es (l, a) = Inr st'"
  using assms
proof (induction es arbitrary: l a)
  case Nil
  then show ?case by simp
next
  case (Cons e es)
  from Cons.prems have wt: "entry_well_typed e" and rest: "well_typed es"
    by (simp_all add: well_typed_def)
  show ?case
  proof (cases "e_sentences e")
    case None
    with Cons.IH [OF rest] show ?thesis by simp
  next
    case (Some ss)
    with wt have "list_all (\<lambda>s. text_well_typed (s_text s)) ss"
      by (simp add: entry_well_typed_def)
    then obtain a1 where "analyze_sentences e ss (enter_entry e l a) = Inr a1"
      using analyze_sentences_total by blast
    with Some Cons.IH [OF rest] show ?thesis by simp
  qed
qed

lemma analyzer_total:
  assumes "well_typed es"
  shows "\<exists>a. analyzeTranscriptContent (EntryArray es) = Inr (Analytics a)"
proof -
  from analyze_entries_total [OF assms] obtain l a
    where "analyze_entries es (None, initial_analysis) = Inr (l, a)"
    by (metis surj_pair)
  then show ?thesis by (simp add: analyzeTranscriptContent_def)
qed

subsection \<open>The topic flow is a fold over the contributing sentences\<close>

lemma track_topic_contribution:
  "track_topic e s (sentence_duration s) flow =
     (case nonempty_or_null (e_topic e) of
        None \<Rightarrow> flow
      | Some tp \<Rightarrow> add_contribution (tp, s) flow)"
  by (cases "e_topic e")
     (auto simp: track_topic_def nonempty_or_null_def add_contribution_def split: option.splits)

lemma analyze_sentence_topicFlow:
  assumes "analyze_sentence e s a = Inr a'"
  shows "topicFlow a' = track_topic e s (sentence_duration s) (topicFlow a)"
  using assms
  by (auto simp: analyze_sentence_def Let_def split: sum.splits jsval.splits)

lemma analyze_sentences_topicFlow:
  assumes "analyze_sentences e ss a = Inr a'"
  shows "topicFlow a' = foldl (\<lambda>fl s. track_topic e s (sentence_duration s) fl) (topicFlow a) ss"
  using assms
proof (induction ss arbitrary: a)
  case Nil
  then show ?case by simp
next
  case (Cons s ss)
  from Cons.prems obtain a1 where 1: "analyze_sentence e s a = Inr a1"
    and 2: "analyze_sentences e ss a1 = Inr a'"
    by (auto split: sum.splits)
  from Cons.IH [OF 2] analyze_sentence_topicFlow [OF 1] show ?case by simp
qed

lemma foldl_track_topic:
  "foldl (\<lambda>fl s. track_topic e s (sentence_duration s) fl) flow ss
     = foldl (\<lambda>fl c. add_contribution c fl) flow
         (case nonempty_or_null (e_topic e) of None \<Rightarrow> [] | Some tp \<Rightarrow> map (\<lambda>s. (tp, s)) ss)"
  by (induction ss arbitrary: flow) (auto simp: track_topic_contribution split: option.splits)

lemma enter_entry_topicFlow: "topicFlow (enter_entry e l a) = topicFlow a"
  by (simp add: enter_entry_def Let_def)

lemma analyze_entries_topicFlow:
  assumes "analyze_entries es (l, a) = Inr (l', a')"
  shows "topicFlow a' = foldl (\<lambda>fl c. add_contribution c fl) (topicFlow a)
                          (concat (map entry_contributions es))"
  using assms
proof (induction es arbitrary: l a)
  case Nil
  then show ?case by simp
next
  case (Cons e es)
  show ?case
  proof (cases "e_sentences e")
    case None
    with Cons.prems have "analyze_entries es (l, a) = Inr (l', a')" by simp
    from Cons.IH [OF this] None show ?thesis
      by (simp add: entry_contributions_def)
  next
    case (Some ss)
    with Cons.prems obtain a1 where 1: "analyze_sentences e ss (enter_entry e l a) = Inr a1"
      and 2: "analyze_entries es (Some (e_speakerId e), a1) = Inr (l', a')"
      by (auto split: sum.splits)
    have "topicFlow a1 = foldl (\<lambda>fl c. add_contribution c fl) (topicFlow a)
                            (entry_contributions e)"
      using analyze_sentences_topicFlow [OF 1]
      by (simp add: foldl_track_topic enter_entry_topicFlow entry_contributions_def Some)
    with Cons.IH [OF 2] show ?thesis by simp
  qed
qed

lemma topic_contributions_concat:
  "topic_contributions es = concat (map entry_contributions es)"
  by (induction es) (simp_all add: topic_contributions_def entry_contributions_def)

subsection \<open>The fold builds one record per topic\<close>

lemma update_first_map:
  assumes "distinct ks" and "\<And>k. key (g k) = k"
  shows "update_first (\<lambda>t. key t = x) f (map g ks) = map (\<lambda>k. if k = x then f (g k) else g k) ks"
  using assms(1)
proof (induction ks)
  case Nil
  then show ?case by simp
next
  case (Cons k ks)
  show ?case
  proof (cases "k = x")
    case True
    with Cons.prems have "x \<notin> set ks" by simp
    then have "map (\<lambda>k. if k = x then f (g k) else g k) ks = map g ks" by auto
    with True show ?thesis by (simp add: assms(2))
  next
    case False
    with Cons show ?thesis by (simp add: assms(2))
  qed
qed

lemma find_map_keyed:
  assumes "\<And>k. key (g k) = k"
  shows "find (\<lambda>t. key t = x) (map g ks) = (if x \<in> set ks then Some (g x) else None)"
  by (induction ks) (auto simp: assms)

lemma expected_topic_record_topic [simp]: "t_topic (expected_topic_record cs k) = k"
  by (simp add: expected_topic_record_def Let_def)

lemma expected_topic_record_other:
  assumes "k \<noteq> fst c"
  shows "expected_topic_record (cs @ [c]) k = expected_topic_record cs k"
  using assms by (simp add: expected_topic_record_def)

lemma expected_topic_record_new:
  assumes "fst c \<notin> fst ` set cs"
  shows "expected_topic_record (cs @ [c]) (fst c) =
           \<lparr> t_topic = fst c, t_startTime = ms_to_seconds (s_start (snd c)),
             t_duration = sentence_duration (snd c), t_mentions = 1 \<rparr>"
proof -
  from assms have "\<forall>d \<in> set cs. fst d \<noteq> fst c"
    by (metis imageI)
  then have "filter (\<lambda>d. fst d = fst c) cs = []"
    by (simp add: filter_empty_conv)
  then show ?thesis
    by (simp add: expected_topic_record_def ms_to_seconds_expected sentence_duration_expected)
qed

lemma expected_topic_record_again:
  assumes "fst c \<in> fst ` set cs"
  shows "expected_topic_record (cs @ [c]) (fst c) =
           (expected_topic_record cs (fst c))
             \<lparr> t_duration := t_duration (expected_topic_record cs (fst c)) + sentence_duration (snd c),
               t_mentions := t_mentions (expected_topic_record cs (fst c)) + 1 \<rparr>"
proof -
  from assms obtain d0 where "d0 \<in> set cs" "fst d0 = fst c"
    by (metis imageE)
  then have "filter (\<lambda>d. fst d = fst c) cs \<noteq> []"
    by (auto simp: filter_empty_conv)
  then obtain d ds where "filter (\<lambda>d. fst d = fst c) cs = d # ds"
    by (cases "filter (\<lambda>d. fst d = fst c) cs") auto
  then show ?thesis
    by (simp add: expected_topic_record_def sentence_duration_expected)
qed

lemma topic_fold_closed:
  "foldl (\<lambda>fl c. add_contribution c fl) [] cs
     = map (expected_topic_record cs) (first_seen (map fst cs))"
proof (induction cs rule: rev_induct)
  case Nil
  then show ?case by (simp add: first_seen_def)
next
  case (snoc c cs)
  let ?ks = "first_seen (map fst cs)"
  have flow: "foldl (\<lambda>fl c. add_contribution c fl) [] (cs @ [c])
                = add_contribution c (map (expected_topic_record cs) ?ks)"
    by (simp add: snoc.IH)
  show ?case
  proof (cases "fst c \<in> fst ` set cs")
    case True
    then have found: "find (\<lambda>t. t_topic t = fst c) (map (expected_topic_record cs) ?ks)
                        = Some (expected_topic_record cs (fst c))"
      by (simp add: find_map_keyed)
    have "add_contribution c (map (expected_topic_record cs) ?ks)
            = map (\<lambda>k. if k = fst c
                        then (expected_topic_record cs k)
                               \<lparr> t_duration := t_duration (expected_topic_record cs k)
                                                 + sentence_duration (snd c),
                                 t_mentions := t_mentions (expected_topic_record cs k) + 1 \<rparr>
                        else expected_topic_record cs k) ?ks"
      by (simp add: add_contribution_def found update_first_map)
    also have "\<dots> = map (expected_topic_record (cs @ [c])) ?ks"
      using True by (auto simp: expected_topic_record_again expected_topic_record_other)
    finally have step: "add_contribution c (map (expected_topic_record cs) ?ks)
                          = map (expected_topic_record (cs @ [c])) ?ks" .
    have "first_seen (map fst (cs @ [c])) = ?ks"
      using True by (simp add: first_seen_snoc)
    with step show ?thesis by (simp only: flow)
  next
    case False
    then have nf: "find (\<lambda>t. t_topic t = fst c) (map (expected_topic_record cs) ?ks) = None"
      by (simp add: find_map_keyed)
    have "expected_topic_record (cs @ [c]) k = expected_topic_record cs k"
      if "k \<in> fst ` set cs" for k
      using that False by (intro expected_topic_record_other) metis
    then have old: "map (expected_topic_record (cs @ [c])) ?ks = map (expected_topic_record cs) ?ks"
      by simp
    have "add_contribution c (map (expected_topic_record cs) ?ks)
            = map (expected_topic_record cs) ?ks @ [expected_topic_record (cs @ [c]) (fst c)]"
      by (simp add: add_contribution_def nf expected_topic_record_new [OF False])
    also have "\<dots> = map (expected_topic_record (cs @ [c])) (?ks @ [fst c])"
      by (simp add: old)
    finally have step: "add_contribution c (map (expected_topic_record cs) ?ks)
                          = map (expected_topic_record (cs @ [c])) (?ks @ [fst c])" .
    have "first_seen (map fst (cs @ [c])) = ?ks @ [fst c]"
      using False by (simp add: first_seen_snoc)
    with step show ?thesis by (simp only: flow)
  qed
qed

lemma calculate_averages_topicFlow: "topicFlow (calculate_averages a) = topicFlow a"
  by (simp add: calculate_averages_def)

lemma analyzer_topic_flow:
  assumes "well_typed es"
  shows "\<exists>a. analyzeTranscriptContent (EntryArray es) = Inr (Analytics a)
             \<and> topicFlow a = expected_topic_flow es"
proof -
  from analyze_entries_total [OF assms] obtain l a
    where run: "analyze_entries es (None, initial_analysis) = Inr (l, a)"
    by (metis surj_pair)
  have "topicFlow a = expected_topic_flow es"
    using analyze_entries_topicFlow [OF run]
    by (simp add: topic_fold_closed expected_topic_flow_def topic_contributions_concat
                  initial_analysis_def Let_def)
  with run show ?thesis
    by (simp add: analyzeTranscriptContent_def calculate_averages_topicFlow)
qed
subsection \<open>What one sentence adds to the totals\<close>

lemma analyze_sentence_cases:
  assumes "analyze_sentence e s a = Inr a'"
  obtains t snt where "or_else (s_text s) (JStr []) = JStr t"
    and "analyzeSentence (JStr t) = Inr snt"
    and "totalDuration a' = totalDuration a + sentence_duration s"
    and "totalWords a' = totalWords a + length (split_space t)"
    and "sentimentDistribution a' = bump_sentiment snt (sentimentDistribution a)"
    and "speakerStats a' =
           stats_update (e_speakerId e)
             (\<lambda>st. st\<lparr> st_totalTime := st_totalTime st + sentence_duration s,
                       st_wordCount := st_wordCount st + length (split_space t),
                       st_sentenceCount := st_sentenceCount st + 1 \<rparr>)
             (speakerStats a)"
    and "speakerSwitches (interactionMetrics a') = speakerSwitches (interactionMetrics a)"
proof (cases "or_else (s_text s) (JStr [])")
  case (JStr t)
  with assms obtain snt where snt: "analyzeSentence (JStr t) = Inr snt"
    by (cases "analyzeSentence (JStr t)")
       (simp_all add: analyze_sentence_def Let_def split_length_def)
  from assms JStr snt have a': "a' =
      a\<lparr> totalDuration := totalDuration a + sentence_duration s,
         totalWords := totalWords a + length (split_space t),
         speakerStats :=
           stats_update (e_speakerId e)
             (\<lambda>st. st\<lparr> st_totalTime := st_totalTime st + sentence_duration s,
                       st_wordCount := st_wordCount st + length (split_space t),
                       st_sentenceCount := st_sentenceCount st + 1 \<rparr>)
             (speakerStats a),
         sentimentDistribution := bump_sentiment snt (sentimentDistribution a),
         interactionMetrics :=
           (interactionMetrics a)
             \<lparr> questionCount :=
                 (if includes_str t ''?''
                  then questionCount (interactionMetrics a) + 1
                  else questionCount (interactionMetrics a)),
               exclamationCount :=
                 (if includes_str t ''!''
                  then exclamationCount (interactionMetrics a) + 1
                  else exclamationCount (interactionMetrics a)) \<rparr>,
         topicFlow := track_topic e s (sentence_duration s) (topicFlow a) \<rparr>"
    by (simp add: analyze_sentence_def Let_def split_length_def)
  show ?thesis
    by (rule that [OF JStr snt]) (simp_all add: a')
qed (use assms in \<open>simp_all add: analyze_sentence_def Let_def split_length_def\<close>)

text \<open>
  The normalizer and the analyzer on the same sentence: duration and sentiment agree, and
  so does the word count of a non-empty text. For a text that is absent or empty the
  normalizer counts no word and the analyzer counts one.
\<close>

lemma per_sentence_agreement:
  assumes "sentence_utterance e s m = Inr (u, m')"
    and "analyze_sentence e s a = Inr a'"
  shows "totalDuration a' = totalDuration a + u_duration u"
    and "sentimentDistribution a' = bump_sentiment (u_sentiment u) (sentimentDistribution a)"
    and "totalWords a' = totalWords a + (if truthy (s_text s) then u_wordCount u else 1)"
proof -
  from assms(2) obtain t snt where t: "or_else (s_text s) (JStr []) = JStr t"
    and snt: "analyzeSentence (JStr t) = Inr snt"
    and d: "totalDuration a' = totalDuration a + sentence_duration s"
    and w: "totalWords a' = totalWords a + length (split_space t)"
    and sd: "sentimentDistribution a' = bump_sentiment snt (sentimentDistribution a)"
    by (rule analyze_sentence_cases)
  from assms(1) obtain wc snt' where
    wc: "(if truthy (s_text s) then split_length (s_text s) else Inr 0) = Inr wc"
    and snt': "analyzeSentence (s_text s) = Inr snt'"
    and u: "u_duration u = sentence_duration s" "u_wordCount u = wc" "u_sentiment u = snt'"
    by (auto simp: sentence_utterance_def case_prod_beta split: sum.splits)
  show "totalDuration a' = totalDuration a + u_duration u"
    by (simp add: d u)
  show "sentimentDistribution a' = bump_sentiment (u_sentiment u) (sentimentDistribution a)"
  proof (cases "truthy (s_text s)")
    case True
    with t have "s_text s = JStr t" by (simp add: or_else_def)
    with snt snt' sd u show ?thesis by simp
  next
    case False
    with t have "t = []" by (simp add: or_else_def)
    with snt have "snt = Neutral" by (simp add: analyzeSentence_def)
    moreover from False snt' have "snt' = Neutral" by (simp add: analyzeSentence_def)
    ultimately show ?thesis by (simp add: sd u)
  qed
  show "totalWords a' = totalWords a + (if truthy (s_text s) then u_wordCount u else 1)"
  proof (cases "truthy (s_text s)")
    case True
    with t have "s_text s = JStr t" by (simp add: or_else_def)
    with True wc have "wc = length (split_space t)" by (simp add: split_length_def)
    with True w u show ?thesis by simp
  next
    case False
    with t have "t = []" by (simp add: or_else_def)
    with False w show ?thesis by simp
  qed
qed

subsection \<open>Speaker switches when no speaker id is empty\<close>

lemma analyze_sentences_switches:
  assumes "analyze_sentences e ss a = Inr a'"
  shows "speakerSwitches (interactionMetrics a') = speakerSwitches (interactionMetrics a)"
  using assms
proof (induction ss arbitrary: a)
  case Nil
  then show ?case by simp
next
  case (Cons s ss)
  from Cons.prems obtain a1 where 1: "analyze_sentence e s a = Inr a1"
    and 2: "analyze_sentences e ss a1 = Inr a'"
    by (auto split: sum.splits)
  from 1 have "speakerSwitches (interactionMetrics a1) = speakerSwitches (interactionMetrics a)"
    by (rule analyze_sentence_cases)
  with Cons.IH [OF 2] show ?case by simp
qed

lemma enter_entry_switches:
  "speakerSwitches (interactionMetrics (enter_entry e l a))
     = speakerSwitches (interactionMetrics a)
       + (if switch_detected l (e_speakerId e) then 1 else 0)"
  by (simp add: enter_entry_def Let_def)

lemma analyze_entries_switches:
  assumes "analyze_entries es (l, a) = Inr (l', a')"
    and "\<forall>e \<in> set (bearing es). e_speakerId e \<noteq> []"
    and "l \<noteq> Some []"
  shows "speakerSwitches (interactionMetrics a')
           = speakerSwitches (interactionMetrics a)
             + count_changes ((case l of None \<Rightarrow> [] | Some x \<Rightarrow> [x]) @ map e_speakerId (bearing es))"
  using assms
proof (induction es arbitrary: l a)
  case Nil
  then show ?case by (auto simp: bearing_def split: option.splits)
next
  case (Cons e es)
  show ?case
  proof (cases "e_sentences e")
    case None
    then have b: "bearing (e # es) = bearing es" by (simp add: bearing_def)
    from None Cons.prems(1) have "analyze_entries es (l, a) = Inr (l', a')" by simp
    from Cons.IH [OF this] Cons.prems(2,3) show ?thesis by (simp add: b)
  next
    case (Some ss)
    then have b: "bearing (e # es) = e # bearing es" by (simp add: bearing_def)
    from Some Cons.prems(1) obtain a1
      where 1: "analyze_sentences e ss (enter_entry e l a) = Inr a1"
        and 2: "analyze_entries es (Some (e_speakerId e), a1) = Inr (l', a')"
      by (auto split: sum.splits)
    from Cons.prems(2) have ne: "e_speakerId e \<noteq> []"
      and rest: "\<forall>e \<in> set (bearing es). e_speakerId e \<noteq> []"
      by (simp_all add: b)
    from ne have ne': "Some (e_speakerId e) \<noteq> Some []" by simp
    have sw1: "speakerSwitches (interactionMetrics a1)
                 = speakerSwitches (interactionMetrics a)
                   + (if switch_detected l (e_speakerId e) then 1 else 0)"
      using analyze_sentences_switches [OF 1] by (simp add: enter_entry_switches)
    have next_changes: "speakerSwitches (interactionMetrics a')
             = speakerSwitches (interactionMetrics a1)
               + count_changes (e_speakerId e # map e_speakerId (bearing es))"
      using Cons.IH [OF 2 rest ne'] by simp
    show ?thesis
    proof (cases l)
      case None
      then have "\<not> switch_detected l (e_speakerId e)"
        by (simp add: switch_detected_def)
      with None sw1 next_changes show ?thesis by (simp add: b)
    next
      case (Some x)
      with Cons.prems(3) have "x \<noteq> []" by simp
      with Some have "switch_detected l (e_speakerId e) \<longleftrightarrow> x \<noteq> e_speakerId e"
        by (auto simp: switch_detected_def)
      with Some sw1 next_changes show ?thesis by (simp add: b)
    qed
  qed
qed

lemma switches_nonempty_ids:
  assumes "well_typed es" and "\<forall>e \<in> set (bearing es). e_speakerId e \<noteq> []"
  shows "\<exists>a. analyzeTranscriptContent (EntryArray es) = Inr (Analytics a)
             \<and> speakerSwitches (interactionMetrics a) = claimed_switches es"
proof -
  from analyze_entries_total [OF assms(1)] obtain l a
    where run: "analyze_entries es (None, initial_analysis) = Inr (l, a)"
    by (metis surj_pair)
  from analyze_entries_switches [OF run assms(2)]
  have "speakerSwitches (interactionMetrics a) = claimed_switches es"
    by (simp add: initial_analysis_def claimed_switches_def bearing_def)
  with run show ?thesis
    by (simp add: analyzeTranscriptContent_def calculate_averages_def)
qed

subsection \<open>Talk time when no speaker id names an inherited property\<close>

lemma stats_update_keys: "map fst (stats_update k f stats) = map fst stats"
  by (induction stats) (auto simp: stats_update_def)

lemma stats_update_time:
  assumes "distinct (map fst stats)" and "k \<in> fst ` set stats"
    and "\<And>st. st_totalTime (f st) = st_totalTime st + d"
  shows "sum_list (map (\<lambda>(k, st). st_totalTime st) (stats_update k f stats))
           = sum_list (map (\<lambda>(k, st). st_totalTime st) stats) + d"
  using assms(1,2)
proof (induction stats)
  case Nil
  then show ?case by simp
next
  case (Cons p stats)
  obtain k' st where p: "p = (k', st)" by (cases p)
  show ?case
  proof (cases "k' = k")
    case True
    with Cons.prems p have "k \<notin> fst ` set stats" by auto
    then have "stats_update k f stats = stats"
      by (induction stats) (auto simp: stats_update_def)
    with True p show ?thesis by (simp add: stats_update_def assms(3))
  next
    case False
    with Cons.prems p have "distinct (map fst stats)" "k \<in> fst ` set stats" by auto
    from Cons.IH [OF this] False p show ?thesis by (simp add: stats_update_def)
  qed
qed

lemma analyze_sentence_invariant:
  assumes "analyze_sentence e s a = Inr a'"
    and "e_speakerId e \<in> fst ` set (speakerStats a)" and "time_invariant a"
  shows "time_invariant a' \<and> map fst (speakerStats a') = map fst (speakerStats a)"
proof -
  from assms(1) obtain t where d: "totalDuration a' = totalDuration a + sentence_duration s"
    and st: "speakerStats a' =
           stats_update (e_speakerId e)
             (\<lambda>st. st\<lparr> st_totalTime := st_totalTime st + sentence_duration s,
                       st_wordCount := st_wordCount st + length (split_space t),
                       st_sentenceCount := st_sentenceCount st + 1 \<rparr>)
             (speakerStats a)"
    by (rule analyze_sentence_cases)
  from assms(3) have dist: "distinct (map fst (speakerStats a))"
    and tot: "total_speaker_time a = totalDuration a"
    by (simp_all add: time_invariant_def)
  have "total_speaker_time a' = total_speaker_time a + sentence_duration s"
    unfolding total_speaker_time_def st
    by (rule stats_update_time [OF dist assms(2)]) simp
  with d tot dist show ?thesis
    by (simp add: time_invariant_def st stats_update_keys)
qed

lemma analyze_sentences_invariant:
  assumes "analyze_sentences e ss a = Inr a'"
    and "e_speakerId e \<in> fst ` set (speakerStats a)" and "time_invariant a"
  shows "time_invariant a'"
  using assms
proof (induction ss arbitrary: a)
  case Nil
  then show ?case by simp
next
  case (Cons s ss)
  from Cons.prems(1) obtain a1 where 1: "analyze_sentence e s a = Inr a1"
    and 2: "analyze_sentences e ss a1 = Inr a'"
    by (auto split: sum.splits)
  from analyze_sentence_invariant [OF 1 Cons.prems(2,3)]
  have inv: "time_invariant a1" and keys: "map fst (speakerStats a1) = map fst (speakerStats a)"
    by simp_all
  from keys Cons.prems(2) have "e_speakerId e \<in> fst ` set (speakerStats a1)"
    by (metis set_map)
  from Cons.IH [OF 2 this inv] show ?case .
qed

lemma enter_entry_invariant:
  assumes "e_speakerId e \<notin> set object_prototype_keys" and "time_invariant a"
  shows "time_invariant (enter_entry e l a)
         \<and> e_speakerId e \<in> fst ` set (speakerStats (enter_entry e l a))"
proof -
  have own: "stats_truthy stats (e_speakerId e) \<longleftrightarrow> e_speakerId e \<in> fst ` set stats" for stats
    using assms(1) by (simp add: stats_truthy_def map_of_eq_None_iff)
  from assms(2) show ?thesis
    by (auto simp: enter_entry_def Let_def own time_invariant_def total_speaker_time_def
                   new_speaker_stat_def)
qed

lemma analyze_entries_invariant:
  assumes "analyze_entries es (l, a) = Inr (l', a')"
    and "\<forall>e \<in> set (bearing es). e_speakerId e \<notin> set object_prototype_keys"
    and "time_invariant a"
  shows "time_invariant a'"
  using assms
proof (induction es arbitrary: l a)
  case Nil
  then show ?case by simp
next
  case (Cons e es)
  show ?case
  proof (cases "e_sentences e")
    case None
    then have b: "bearing (e # es) = bearing es" by (simp add: bearing_def)
    from None Cons.prems(1) have "analyze_entries es (l, a) = Inr (l', a')" by simp
    from Cons.IH [OF this] Cons.prems(2,3) show ?thesis by (simp add: b)
  next
    case (Some ss)
    then have b: "bearing (e # es) = e # bearing es" by (simp add: bearing_def)
    from Some Cons.prems(1) obtain a1
      where 1: "analyze_sentences e ss (enter_entry e l a) = Inr a1"
        and 2: "analyze_entries es (Some (e_speakerId e), a1) = Inr (l', a')"
      by (auto split: sum.splits)
    from Cons.prems(2) have own: "e_speakerId e \<notin> set object_prototype_keys"
      and rest: "\<forall>e \<in> set (bearing es). e_speakerId e \<notin> set object_prototype_keys"
      by (simp_all add: b)
    from enter_entry_invariant [OF own Cons.prems(3)]
    have "time_invariant (enter_entry e l a)"
      and "e_speakerId e \<in> fst ` set (speakerStats (enter_entry e l a))"
      by simp_all
    from analyze_sentences_invariant [OF 1 this(2) this(1)] have "time_invariant a1" .
    from Cons.IH [OF 2 rest this] show ?thesis .
  qed
qed

lemma finish_stat_time:
  "sum_list (map (\<lambda>(k, st). st_totalTime st) (map (\<lambda>(k, st). (k, finish_stat w st)) stats))
     = sum_list (map (\<lambda>(k, st). st_totalTime st) stats)"
  by (induction stats) (auto simp: finish_stat_def)

lemma calculate_averages_time:
  "total_speaker_time (calculate_averages a) = total_speaker_time a"
  by (simp add: total_speaker_time_def calculate_averages_def finish_stat_time del: map_map)

lemma calculate_averages_percentage:
  "\<forall>(k, st) \<in> set (speakerStats (calculate_averages a)).
      st_talkTimePercentage st =
        Some (if totalDuration a > 0 then st_totalTime st / totalDuration a * 100 else 0)"
  by (auto simp: calculate_averages_def finish_stat_def)

lemma speaker_time_own_keys:
  assumes "well_typed es"
    and "\<forall>e \<in> set (bearing es). e_speakerId e \<notin> set object_prototype_keys"
  shows "\<exists>a. analyzeTranscriptContent (EntryArray es) = Inr (Analytics a)
             \<and> total_speaker_time a = totalDuration a
             \<and> (\<forall>(k, st) \<in> set (speakerStats a).
                   st_talkTimePercentage st =
                     Some (if totalDuration a > 0
                           then st_totalTime st / totalDuration a * 100 else 0))"
proof -
  from analyze_entries_total [OF assms(1)] obtain l a
    where run: "analyze_entries es (None, initial_analysis) = Inr (l, a)"
    by (metis surj_pair)
  have "time_invariant initial_analysis"
    by (simp add: time_invariant_def initial_analysis_def total_speaker_time_def)
  from analyze_entries_invariant [OF run assms(2) this]
  have "total_speaker_time a = totalDuration a"
    by (simp add: time_invariant_def)
  moreover have same: "totalDuration (calculate_averages a) = totalDuration a"
    by (simp add: calculate_averages_def)
  ultimately
  have "total_speaker_time (calculate_averages a) = totalDuration (calculate_averages a)"
    by (simp only: calculate_averages_time)
  moreover have "\<forall>(k, st) \<in> set (speakerStats (calculate_averages a)).
                   st_talkTimePercentage st =
                     Some (if totalDuration (calculate_averages a) > 0
                           then st_totalTime st / totalDuration (calculate_averages a) * 100
                           else 0)"
    unfolding same by (rule calculate_averages_percentage)
  ultimately show ?thesis
    using run by (simp add: analyzeTranscriptContent_def)
qed

section \<open>A missing text and the empty string\<close>

lemma fill_entry_fields [simp]:
  "e_speakerId (fill_entry e) = e_speakerId e"
  "e_topic (fill_entry e) = e_topic e"
  "e_sentence (fill_entry e) = e_sentence e"
  "e_text (fill_entry e) = e_text e"
  "e_startTime (fill_entry e) = e_startTime e"
  "e_endTime (fill_entry e) = e_endTime e"
  "e_sentences (fill_entry e) = map_option (map fill_sentence) (e_sentences e)"
  by (simp_all add: fill_entry_def)

lemma fill_sentence_fields [simp]:
  "s_start (fill_sentence s) = s_start s"
  "s_end (fill_sentence s) = s_end s"
  "s_text (fill_sentence s) = fill_text (s_text s)"
  by (simp_all add: fill_sentence_def)

lemma sentence_duration_fill: "sentence_duration (fill_sentence s) = sentence_duration s"
  by (simp add: sentence_duration_def)

lemma or_else_fill: "or_else (fill_text v) d = or_else v d"
  by (cases v) (simp_all add: or_else_def fill_text_def)

lemma word_count_fill:
  "(if truthy (fill_text v) then split_length (fill_text v) else Inr 0)
     = (if truthy v then split_length v else Inr 0)"
  by (cases v) (simp_all add: fill_text_def)

lemma analyzeSentence_fill: "analyzeSentence (fill_text v) = analyzeSentence v"
  by (cases v) (simp_all add: fill_text_def analyzeSentence_def)

lemma sentence_utterance_fill:
  "sentence_utterance (fill_entry e) (fill_sentence s) m = sentence_utterance e s m"
  by (simp only: sentence_utterance_def fill_entry_fields fill_sentence_fields
                 sentence_duration_fill or_else_fill word_count_fill analyzeSentence_fill)

lemma process_sentences_fill:
  "process_sentences (fill_entry e) (map fill_sentence ss) st = process_sentences e ss st"
proof (induction ss arbitrary: st)
  case Nil
  then show ?case by simp
next
  case (Cons s ss)
  obtain us m where st: "st = (us, m)" by (cases st)
  show ?case
    by (simp add: st sentence_utterance_fill Cons.IH split: sum.splits prod.splits)
qed

lemma fallback_utterance_fill: "fallback_utterance (fill_entry e) m = fallback_utterance e m"
  by (simp add: fallback_utterance_def)

lemma process_entries_fill: "process_entries (map fill_entry es) st = process_entries es st"
proof (induction es arbitrary: st)
  case Nil
  then show ?case by simp
next
  case (Cons e es)
  obtain us m where st: "st = (us, m)" by (cases st)
  show ?case
    by (cases "e_sentences e")
       (simp_all add: st process_sentences_fill fallback_utterance_fill Cons.IH
                 split: sum.splits prod.splits)
qed

lemma normalizer_fill: "processTranscriptEntries (fill_missing arg) = processTranscriptEntries arg"
  by (cases arg) (simp_all add: processTranscriptEntries_def fill_missing_def process_entries_fill)

lemma trim_empty: "trim [] = []"
  by (simp add: trim_def)

lemma extract_sentences_fill:
  "extract_sentences name (map fill_sentence ss) conv = extract_sentences name ss conv"
proof (induction ss arbitrary: conv)
  case Nil
  then show ?case by simp
next
  case (Cons s ss)
  show ?case
    by (cases "s_text s") (simp_all add: optional_trim_def fill_text_def trim_empty Cons.IH)
qed

lemma extract_entries_fill: "extract_entries (map fill_entry es) st = extract_entries es st"
proof (induction es arbitrary: st)
  case Nil
  then show ?case by simp
next
  case (Cons e es)
  obtain conv m where st: "st = (conv, m)" by (cases st)
  show ?case
    by (cases "e_sentences e")
       (simp_all add: st extract_sentences_fill Cons.IH split: sum.splits prod.splits)
qed

lemma extractor_fill: "extractConversationText (fill_missing arg) = extractConversationText arg"
  by (cases arg) (simp_all add: extractConversationText_def fill_missing_def extract_entries_fill)

lemma track_topic_fill:
  "track_topic (fill_entry e) (fill_sentence s) d flow = track_topic e s d flow"
  by (simp only: track_topic_def fill_entry_fields fill_sentence_fields)

lemma analyze_sentence_fill:
  "analyze_sentence (fill_entry e) (fill_sentence s) a = analyze_sentence e s a"
  by (simp only: analyze_sentence_def fill_entry_fields fill_sentence_fields or_else_fill
                 sentence_duration_fill track_topic_fill)

lemma analyze_sentences_fill:
  "analyze_sentences (fill_entry e) (map fill_sentence ss) a = analyze_sentences e ss a"
  by (induction ss arbitrary: a) (simp_all add: analyze_sentence_fill split: sum.splits)

lemma enter_entry_fill: "enter_entry (fill_entry e) l a = enter_entry e l a"
  by (simp add: enter_entry_def)

lemma analyze_entries_fill: "analyze_entries (map fill_entry es) st = analyze_entries es st"
proof (induction es arbitrary: st)
  case Nil
  then show ?case by simp
next
  case (Cons e es)
  obtain l a where st: "st = (l, a)" by (cases st)
  show ?case
    by (cases "e_sentences e")
       (simp_all add: st analyze_sentences_fill enter_entry_fill Cons.IH split: sum.splits)
qed

lemma analyzer_fill: "analyzeTranscriptContent (fill_missing arg) = analyzeTranscriptContent arg"
  by (cases arg) (simp_all add: analyzeTranscriptContent_def fill_missing_def analyze_entries_fill)


section \<open>The claims\<close>

subsection \<open>C1: the normalizer and the analyzer on the same sentence\<close>

text \<open>
  C1 states that the duration, word count and sentiment which the analyzer accumulates
  for a sentence equal the fields the normalizer gives the utterance of that sentence,
  also when \<^verbatim>\<open>sentence.text\<close> is absent or empty. The code departs from it in the word count.
  For the single sentence \<^verbatim>\<open>{start:1000, end:3000}\<close>, which has no text, the normalizer
  emits an utterance with wordCount 0, while the analyzer reports totalWords 1 and a word
  count of 1 for the speaker: it splits the empty string, which gives one token. Duration
  (2) and sentiment (neutral) agree. Lemma \<open>per_sentence_agreement\<close> shows that this is the
  only disagreement: for every sentence on which both return, duration and sentiment are
  equal, and so is the word count when the text is a non-empty string.
\<close>

theorem C1_word_count_of_absent_text:
  "processTranscriptEntries (EntryArray ex_no_text) =
     Inr [\<lparr> u_speakerId = ''A'', u_speakerName = ''Speaker 1'',
            u_sentence = JStr ''No text available'', u_startTime = 1, u_endTime = 3,
            u_timestamp = ''00:01'', u_topic = None, u_duration = 2, u_wordCount = 0,
            u_sentiment = Neutral \<rparr>]
   \<and> analyzeTranscriptContent (EntryArray ex_no_text) =
     Inr (Analytics
       \<lparr> speakerStats =
           [(''A'', \<lparr> st_totalTime = 2, st_wordCount = 1, st_sentenceCount = 1,
                     st_avgWordsPerSentence = 1, st_talkTimePercentage = Some 100 \<rparr>)],
         totalDuration = 2,
         totalWords = 1,
         sentimentDistribution = \<lparr> positive = 0, neutral = 1, negative = 0 \<rparr>,
         topicFlow = [],
         interactionMetrics =
           \<lparr> questionCount = 0, exclamationCount = 0, speakerSwitches = 0 \<rparr> \<rparr>)"
proof -
  have "processTranscriptEntries (EntryArray ex_no_text) =
     Inr [\<lparr> u_speakerId = ''A'', u_speakerName = ''Speaker 1'',
            u_sentence = JStr ''No text available'', u_startTime = 1, u_endTime = 3,
            u_timestamp = ''00:01'', u_topic = None, u_duration = 2, u_wordCount = 0,
            u_sentiment = Neutral \<rparr>]"
    by code_simp
  moreover have "analyzeTranscriptContent (EntryArray ex_no_text) =
     Inr (Analytics
       \<lparr> speakerStats =
           [(''A'', \<lparr> st_totalTime = 2, st_wordCount = 1, st_sentenceCount = 1,
                     st_avgWordsPerSentence = 1, st_talkTimePercentage = Some 100 \<rparr>)],
         totalDuration = 2,
         totalWords = 1,
         sentimentDistribution = \<lparr> positive = 0, neutral = 1, negative = 0 \<rparr>,
         topicFlow = [],
         interactionMetrics =
           \<lparr> questionCount = 0, exclamationCount = 0, speakerSwitches = 0 \<rparr> \<rparr>)"
    by code_simp
  ultimately show ?thesis by (intro conjI)
qed

subsection \<open>C2: talk time per speaker and total duration\<close>

text \<open>
  C2 states that for every entries array the talk times of all speakers add up to
  \<open>totalDuration\<close>, and that \<open>talkTimePercentage\<close> is totalTime/totalDuration*100 for a positive
  total and 0 for a total of 0. The code departs from the first part when a speaker id is
  the name of a property that every object inherits, such as \<^verbatim>\<open>constructor\<close>. The lookup
  \<^verbatim>\<open>analysis.speakerStats[speakerId]\<close> then finds the inherited property, which is truthy,
  so no record is created for the speaker and the additions to \<^verbatim>\<open>totalTime\<close> land on the
  inherited object. For one sentence of 2 seconds by the speaker \<^verbatim>\<open>constructor\<close> the
  analyzer returns no speaker at all and a total duration of 2: the talk times add up to
  0. Lemma \<open>speaker_time_own_keys\<close> shows that the claim holds for every array in which no
  speaker id is such a name; numbers are exact rationals there.
\<close>

theorem C2_inherited_speaker_id:
  "analyzeTranscriptContent (EntryArray ex_constructor) =
     Inr (Analytics
       \<lparr> speakerStats = [],
         totalDuration = 2,
         totalWords = 1,
         sentimentDistribution = \<lparr> positive = 0, neutral = 1, negative = 0 \<rparr>,
         topicFlow = [],
         interactionMetrics =
           \<lparr> questionCount = 0, exclamationCount = 0, speakerSwitches = 0 \<rparr> \<rparr>)
   \<and> total_speaker_time
       \<lparr> speakerStats = [],
         totalDuration = 2,
         totalWords = 1,
         sentimentDistribution = \<lparr> positive = 0, neutral = 1, negative = 0 \<rparr>,
         topicFlow = [],
         interactionMetrics =
           \<lparr> questionCount = 0, exclamationCount = 0, speakerSwitches = 0 \<rparr> \<rparr> = 0"
proof -
  have "analyzeTranscriptContent (EntryArray ex_constructor) =
     Inr (Analytics
       \<lparr> speakerStats = [],
         totalDuration = 2,
         totalWords = 1,
         sentimentDistribution = \<lparr> positive = 0, neutral = 1, negative = 0 \<rparr>,
         topicFlow = [],
         interactionMetrics =
           \<lparr> questionCount = 0, exclamationCount = 0, speakerSwitches = 0 \<rparr> \<rparr>)"
    by code_simp
  then show ?thesis by (simp add: total_speaker_time_def)
qed

subsection \<open>C3: the entry normalizer\<close>

text \<open>
  The claim as stated fails in two places. An entry whose sentences array is empty has no
  non-empty sentences array, yet it yields no utterance at all, not one fallback
  utterance. And the fallback text is chosen with \<^verbatim>\<open>||\<close>, not with \<^verbatim>\<open>??\<close>: a legacy entry
  with \<^verbatim>\<open>sentence: ""\<close> and \<^verbatim>\<open>text: "legacy"\<close> gets the sentence \<^verbatim>\<open>legacy\<close>, where \<^verbatim>\<open>??\<close> would
  keep the empty string.
\<close>

theorem C3_counterexample:
  "processTranscriptEntries (EntryArray ex_empty_sentences) = Inr []
   \<and> map e_sentence ex_legacy = [Some []]
   \<and> processTranscriptEntries (EntryArray ex_legacy) =
       Inr [\<lparr> u_speakerId = ''A'', u_speakerName = ''Speaker 1'', u_sentence = JStr ''legacy'',
              u_startTime = 4, u_endTime = 0, u_timestamp = ''00:04'', u_topic = None,
              u_duration = 0, u_wordCount = 0, u_sentiment = Neutral \<rparr>]"
proof -
  have "processTranscriptEntries (EntryArray ex_empty_sentences) = Inr []"
    by code_simp
  moreover have "map e_sentence ex_legacy = [Some []]"
    by (simp add: ex_legacy_def)
  moreover have "processTranscriptEntries (EntryArray ex_legacy) =
       Inr [\<lparr> u_speakerId = ''A'', u_speakerName = ''Speaker 1'', u_sentence = JStr ''legacy'',
              u_startTime = 4, u_endTime = 0, u_timestamp = ''00:04'', u_topic = None,
              u_duration = 0, u_wordCount = 0, u_sentiment = Neutral \<rparr>]"
    by code_simp
  ultimately show ?thesis by (intro conjI)
qed

text \<open>
  C3, amended. Let every \<^verbatim>\<open>sentence.text\<close> be absent or a string. For every entry whose
  sentences is an array, the normalizer emits one utterance per sentence in array order,
  and none when the array is empty, with startTime = sentence.start/1000 (else 0),
  endTime = sentence.end/1000 (else 0), duration = (end-start)/1000 when both are present
  and non-zero (else 0), wordCount = one more than the number of spaces of a non-empty
  text and 0 when the text is absent or empty, timestamp = the formatted startTime, and
  speakerName from the per-call resolver, which is asked once for every emitted
  utterance. For every entry whose sentences is not an array it emits exactly one
  fallback utterance with sentence = the first non-empty string among entry.sentence and
  entry.text, else \<^verbatim>\<open>No content available\<close>, startTime = entry.startTime (else 0),
  endTime = entry.endTime (else 0), duration = 0, wordCount = 0 and neutral sentiment.
  All of this is \<open>expected_utterances\<close>. On the entry
  \<^verbatim>\<open>{speakerId:"A", sentences:[{text:"Hi there", start:1000, end:3000}]}\<close> the result is exactly
  one utterance with startTime 1, endTime 3, duration 2, wordCount 2, timestamp 00:01 and
  speakerName \<^verbatim>\<open>Speaker 1\<close>.
\<close>

theorem C3_entry_normalizer:
  assumes "well_typed es"
  shows "processTranscriptEntries (EntryArray es) = Inr (expected_utterances es)
    \<and> length (expected_utterances es)
        = sum_list (map (\<lambda>e. case e_sentences e of Some ss \<Rightarrow> length ss | None \<Rightarrow> 1) es)
    \<and> processTranscriptEntries (EntryArray ex_hi_there) =
        Inr [\<lparr> u_speakerId = ''A'', u_speakerName = ''Speaker 1'', u_sentence = JStr ''Hi there'',
               u_startTime = 1, u_endTime = 3, u_timestamp = ''00:01'', u_topic = None,
               u_duration = 2, u_wordCount = 2, u_sentiment = Neutral \<rparr>]"
proof -
  have "processTranscriptEntries (EntryArray ex_hi_there) =
        Inr [\<lparr> u_speakerId = ''A'', u_speakerName = ''Speaker 1'', u_sentence = JStr ''Hi there'',
               u_startTime = 1, u_endTime = 3, u_timestamp = ''00:01'', u_topic = None,
               u_duration = 2, u_wordCount = 2, u_sentiment = Neutral \<rparr>]"
    by code_simp
  with normalizer_refines [OF assms] expected_utterances_length [of es]
  show ?thesis by (intro conjI)
qed

theorem C3_entry_normalizer_witness:
  "well_typed (ex_legacy @ ex_hi_there @ ex_empty_sentences)
   \<and> processTranscriptEntries (EntryArray (ex_legacy @ ex_hi_there @ ex_empty_sentences))
       = Inr (expected_utterances (ex_legacy @ ex_hi_there @ ex_empty_sentences))
   \<and> length (expected_utterances (ex_legacy @ ex_hi_there @ ex_empty_sentences)) = 2"
proof -
  have wt: "well_typed (ex_legacy @ ex_hi_there @ ex_empty_sentences)"
    by code_simp
  have two: "sum_list (map (\<lambda>e. case e_sentences e of Some ss \<Rightarrow> length ss | None \<Rightarrow> 1)
                (ex_legacy @ ex_hi_there @ ex_empty_sentences)) = 2"
    by (simp add: ex_legacy_def ex_hi_there_def ex_empty_sentences_def mk_entry_def)
  note all = C3_entry_normalizer [OF wt]
  from all have run: "processTranscriptEntries (EntryArray (ex_legacy @ ex_hi_there @ ex_empty_sentences))
       = Inr (expected_utterances (ex_legacy @ ex_hi_there @ ex_empty_sentences))"
    by (rule conjunct1)
  from all have "length (expected_utterances (ex_legacy @ ex_hi_there @ ex_empty_sentences))
        = sum_list (map (\<lambda>e. case e_sentences e of Some ss \<Rightarrow> length ss | None \<Rightarrow> 1)
            (ex_legacy @ ex_hi_there @ ex_empty_sentences))"
    by (rule conjunct2 [THEN conjunct1])
  with two have len: "length (expected_utterances (ex_legacy @ ex_hi_there @ ex_empty_sentences)) = 2"
    by simp
  from wt run len show ?thesis by (intro conjI)
qed

subsection \<open>C4: the sentence sentiment classifier\<close>

text \<open>
  C4. For every text, \<open>analyzeSentence\<close> returns positive exactly when more words of the
  positive list than of the negative list are contained in the text as substrings, letter
  case ignored; negative when more words of the negative list are; neutral otherwise,
  which covers ties and an absent or empty text. Letter case is that of the table of
  capital and small letters (\<open>fold_case\<close>), not the code's own \<open>toLowerCase\<close>. The four stated
  examples are part of the statement, and so are three texts with capital letters:
  \<^verbatim>\<open>GOODBYE\<close> contains \<^verbatim>\<open>good\<close>, \<^verbatim>\<open>A Terrible PROBLEM but Great\<close> has two negative words and one
  positive word, and \<^verbatim>\<open>Great Problem\<close> is a tie.
\<close>

theorem C4_sentiment_classifier:
  "analyzeSentence (JStr txt) = Inr (claimed_sentiment txt)
   \<and> analyzeSentence JUndefined = Inr Neutral
   \<and> analyzeSentence JNull = Inr Neutral
   \<and> analyzeSentence (JStr ''This is great and wonderful'') = Inr Positive
   \<and> analyzeSentence (JStr ''This is a terrible problem'') = Inr Negative
   \<and> analyzeSentence (JStr '''') = Inr Neutral
   \<and> analyzeSentence (JStr ''great problem'') = Inr Neutral
   \<and> analyzeSentence (JStr ''GOODBYE'') = Inr Positive
   \<and> analyzeSentence (JStr ''A Terrible PROBLEM but Great'') = Inr Negative
   \<and> analyzeSentence (JStr ''Great Problem'') = Inr Neutral
   \<and> contains_ci ''GOODBYE'' ''good''
   \<and> \<not> contains_ci ''GOODBYE'' ''great''"
proof -
  have "analyzeSentence (JStr ''This is great and wonderful'') = Inr Positive"
    by code_simp
  moreover have "analyzeSentence (JStr ''This is a terrible problem'') = Inr Negative"
    by code_simp
  moreover have "analyzeSentence (JStr '''') = Inr Neutral"
    by code_simp
  moreover have "analyzeSentence (JStr ''great problem'') = Inr Neutral"
    by code_simp
  moreover have "analyzeSentence (JStr ''GOODBYE'') = Inr Positive"
    by code_simp
  moreover have "analyzeSentence (JStr ''A Terrible PROBLEM but Great'') = Inr Negative"
    by code_simp
  moreover have "analyzeSentence (JStr ''Great Problem'') = Inr Neutral"
    by code_simp
  moreover have "analyzeSentence JUndefined = Inr Neutral" "analyzeSentence JNull = Inr Neutral"
    by (simp_all add: analyzeSentence_def)
  moreover have "contains_ci ''GOODBYE'' ''good''"
  proof -
    have "''GOODBYE'' = [] @ ''GOOD'' @ ''BYE''" by simp
    moreover have "map fold_case ''GOOD'' = map fold_case ''good''" by code_simp
    ultimately show ?thesis unfolding contains_ci_def by blast
  qed
  moreover have "\<not> contains_ci ''GOODBYE'' ''great''"
  proof -
    have w: "set ''great'' \<subseteq> set small_letters" "map fold_case ''great'' = ''great''"
      by code_simp+
    have "\<not> includes_str (toLowerCase ''GOODBYE'') ''great''"
      by code_simp
    with includes_lower_iff [OF w, of "''GOODBYE''"] show ?thesis by blast
  qed
  ultimately show ?thesis
    by (simp only: analyzeSentence_string simp_thms)
qed

subsection \<open>C5: the speaker resolver\<close>

text \<open>
  C5. Take any sequence \<open>ids\<close> of lookups against one freshly constructed resolver, with
  \<open>labels\<close> the labels returned and \<open>m\<close> the map at the end. The first lookup of an id
  (the empty string is an id like any other) returns \<^verbatim>\<open>Speaker N\<close>, where \<open>N\<close> counts the
  distinct ids looked up so far, this one included. A later lookup of the same id returns
  the label of the earlier one. The map only grows, and only at its end: the map after
  any number of the lookups is an initial segment of \<open>m\<close>, and so does a single lookup
  extend whatever map it is given. The labels are a function of the sequence of ids
  alone, which \<open>speaker_number\<close> spells out, so two runs over the same sequence with fresh
  instances return the same labels.
\<close>

theorem C5_speaker_resolver:
  assumes "resolve_all ids [] = (labels, m)"
  shows "length labels = length ids
    \<and> (\<forall>i<length ids. ids ! i \<notin> set (take i ids) \<longrightarrow>
          labels ! i = ''Speaker '' @ nat_to_string (card (set (take (Suc i) ids))))
    \<and> (\<forall>i<length ids. \<forall>j<i. ids ! j = ids ! i \<longrightarrow> labels ! i = labels ! j)
    \<and> (\<forall>n\<le>length ids. prefix (snd (resolve_all (take n ids) [])) m)
    \<and> (\<forall>k m0. prefix m0 (snd (getSpeakerName k m0)))
    \<and> labels = map (\<lambda>k. ''Speaker '' @ nat_to_string (speaker_number ids k)) ids
    \<and> (\<forall>labels' m'. resolve_all ids [] = (labels', m') \<longrightarrow> labels' = labels)"
proof -
  from assms have labels: "labels = map (\<lambda>k. spaced_label (speaker_number ids k)) ids"
    and m: "m = snd (alloc_all spaced_label ids [])"
    by (simp_all add: resolve_all_alloc alloc_all_closed)
  have 1: "length labels = length ids" by (simp add: labels)
  have 2: "labels ! i = ''Speaker '' @ nat_to_string (card (set (take (Suc i) ids)))"
    if "i < length ids" "ids ! i \<notin> set (take i ids)" for i
    using that by (simp add: labels speaker_number_first spaced_label_def)
  have 3: "labels ! i = labels ! j" if "i < length ids" "j < i" "ids ! j = ids ! i" for i j
    using that by (simp add: labels)
  have 4: "prefix (snd (resolve_all (take n ids) [])) m" for n
  proof -
    have "alloc_all spaced_label ids [] = alloc_all spaced_label (take n ids @ drop n ids) []"
      by simp
    also have "snd \<dots> = snd (alloc_all spaced_label (drop n ids)
                               (snd (alloc_all spaced_label (take n ids) [])))"
      by (simp only: alloc_all_append snd_conv)
    finally show ?thesis
      by (simp add: m resolve_all_alloc alloc_all_prefix)
  qed
  have 5: "prefix m0 (snd (getSpeakerName k m0))" for k m0
    by (simp add: getSpeakerName_alloc alloc_label_prefix)
  have 6: "labels = map (\<lambda>k. ''Speaker '' @ nat_to_string (speaker_number ids k)) ids"
    by (simp add: labels spaced_label_def)
  have 7: "labels' = labels" if "resolve_all ids [] = (labels', m')" for labels' m'
    using that assms by simp
  from 1 2 3 4 5 6 7 show ?thesis by blast
qed

theorem C5_speaker_resolver_witness:
  "resolve_all [''7'', '''', ''7'', ''9''] [] =
     ([''Speaker 1'', ''Speaker 2'', ''Speaker 1'', ''Speaker 3''],
      [(''7'', ''Speaker 1''), ('''', ''Speaker 2''), (''9'', ''Speaker 3'')])
   \<and> length [''Speaker 1'', ''Speaker 2'', ''Speaker 1'', ''Speaker 3'']
       = length [''7'', '''', ''7'', ''9'']
   \<and> [''Speaker 1'', ''Speaker 2'', ''Speaker 1'', ''Speaker 3''] ! 3
       = ''Speaker '' @ nat_to_string (card (set (take (Suc 3) [''7'', '''', ''7'', ''9''])))"
proof -
  let ?I = "[''7'', '''', ''7'', ''9'']"
  let ?L = "[''Speaker 1'', ''Speaker 2'', ''Speaker 1'', ''Speaker 3'']"
  have run: "resolve_all ?I [] =
     (?L, [(''7'', ''Speaker 1''), ('''', ''Speaker 2''), (''9'', ''Speaker 3'')])"
    by code_simp
  note all = C5_speaker_resolver [OF run]
  have len: "length ?L = length ?I"
    by (rule all [THEN conjunct1])
  have "\<forall>i<length ?I. ?I ! i \<notin> set (take i ?I) \<longrightarrow>
          ?L ! i = ''Speaker '' @ nat_to_string (card (set (take (Suc i) ?I)))"
    by (rule all [THEN conjunct2, THEN conjunct1])
  then have "3 < length ?I \<longrightarrow> ?I ! 3 \<notin> set (take 3 ?I) \<longrightarrow>
          ?L ! 3 = ''Speaker '' @ nat_to_string (card (set (take (Suc 3) ?I)))"
    by (rule spec)
  moreover have "3 < length ?I" by simp
  moreover have "?I ! 3 \<notin> set (take 3 ?I)" by simp
  ultimately have first: "?L ! 3 = ''Speaker '' @ nat_to_string (card (set (take (Suc 3) ?I)))"
    by (elim impE) assumption+
  from run len first show ?thesis by (intro conjI)
qed

subsection \<open>C6: speaker switches\<close>

text \<open>
  C6 states that \<open>speakerSwitches\<close> counts the entries with a sentences array whose speaker
  id, any string and the empty one included, differs from that of the entry with a
  sentences array before it. The code departs from it when the earlier id is the empty
  string: the test \<^verbatim>\<open>lastSpeaker && lastSpeaker !== speakerId\<close> takes the remembered empty
  string for no speaker at all. For an entry of the speaker with the empty id followed by
  an entry of speaker \<^verbatim>\<open>A\<close>, both with a sentence, the analyzer reports 0 switches where the
  claim counts 1. Lemma \<open>switches_nonempty_ids\<close> shows that the counter is as claimed for
  every array in which no entry with a sentences array has the empty id.
\<close>

theorem C6_switch_after_empty_id:
  "analyzeTranscriptContent (EntryArray ex_empty_id) =
     Inr (Analytics
       \<lparr> speakerStats =
           [('''', \<lparr> st_totalTime = 1, st_wordCount = 1, st_sentenceCount = 1,
                    st_avgWordsPerSentence = 1, st_talkTimePercentage = Some 50 \<rparr>),
            (''A'', \<lparr> st_totalTime = 1, st_wordCount = 1, st_sentenceCount = 1,
                     st_avgWordsPerSentence = 1, st_talkTimePercentage = Some 50 \<rparr>)],
         totalDuration = 2,
         totalWords = 2,
         sentimentDistribution = \<lparr> positive = 0, neutral = 2, negative = 0 \<rparr>,
         topicFlow = [],
         interactionMetrics =
           \<lparr> questionCount = 0, exclamationCount = 0, speakerSwitches = 0 \<rparr> \<rparr>)
   \<and> claimed_switches ex_empty_id = 1"
proof -
  have "analyzeTranscriptContent (EntryArray ex_empty_id) =
     Inr (Analytics
       \<lparr> speakerStats =
           [('''', \<lparr> st_totalTime = 1, st_wordCount = 1, st_sentenceCount = 1,
                    st_avgWordsPerSentence = 1, st_talkTimePercentage = Some 50 \<rparr>),
            (''A'', \<lparr> st_totalTime = 1, st_wordCount = 1, st_sentenceCount = 1,
                     st_avgWordsPerSentence = 1, st_talkTimePercentage = Some 50 \<rparr>)],
         totalDuration = 2,
         totalWords = 2,
         sentimentDistribution = \<lparr> positive = 0, neutral = 2, negative = 0 \<rparr>,
         topicFlow = [],
         interactionMetrics =
           \<lparr> questionCount = 0, exclamationCount = 0, speakerSwitches = 0 \<rparr> \<rparr>)"
    by code_simp
  moreover have "claimed_switches ex_empty_id = 1"
    by code_simp
  ultimately show ?thesis by (intro conjI)
qed

subsection \<open>C7: the topic flow\<close>

text \<open>
  C7. Let every \<^verbatim>\<open>sentence.text\<close> be absent or a string, so that the analyzer returns. The
  topic flow it returns holds exactly one record per distinct topic that is a non-empty
  string, in the order in which the topics first occur on a sentence. The record's
  startTime is that of the first sentence under the topic (start/1000, or 0), its
  duration the sum of the durations of all sentences under the topic, adjacent or not,
  and its mentions their number. For two one-sentence entries on pricing, of 5 and 7
  seconds, with an entry on another topic between them, the flow holds the single
  pricing record with 2 mentions, duration 12 and the start of the first sentence.
\<close>

theorem C7_topic_flow:
  assumes "well_typed es"
  shows "(\<exists>a. analyzeTranscriptContent (EntryArray es) = Inr (Analytics a)
              \<and> topicFlow a = expected_topic_flow es)
    \<and> map t_topic (expected_topic_flow es) = first_seen (map fst (topic_contributions es))
    \<and> distinct (map t_topic (expected_topic_flow es))
    \<and> analyzeTranscriptContent (EntryArray ex_pricing) =
        Inr (Analytics
          \<lparr> speakerStats =
              [(''A'', \<lparr> st_totalTime = 12, st_wordCount = 2, st_sentenceCount = 2,
                        st_avgWordsPerSentence = 1, st_talkTimePercentage = Some (600 / 7) \<rparr>),
               (''B'', \<lparr> st_totalTime = 2, st_wordCount = 1, st_sentenceCount = 1,
                        st_avgWordsPerSentence = 1, st_talkTimePercentage = Some (100 / 7) \<rparr>)],
            totalDuration = 14,
            totalWords = 3,
            sentimentDistribution = \<lparr> positive = 0, neutral = 3, negative = 0 \<rparr>,
            topicFlow =
              [\<lparr> t_topic = ''pricing'', t_startTime = 1, t_duration = 12, t_mentions = 2 \<rparr>,
               \<lparr> t_topic = ''intro'', t_startTime = 6, t_duration = 2, t_mentions = 1 \<rparr>],
            interactionMetrics =
              \<lparr> questionCount = 0, exclamationCount = 0, speakerSwitches = 2 \<rparr> \<rparr>)"
proof -
  have topics: "map t_topic (expected_topic_flow es) = first_seen (map fst (topic_contributions es))"
    by (simp add: expected_topic_flow_def Let_def comp_def)
  then have "distinct (map t_topic (expected_topic_flow es))"
    by simp
  moreover have "analyzeTranscriptContent (EntryArray ex_pricing) =
        Inr (Analytics
          \<lparr> speakerStats =
              [(''A'', \<lparr> st_totalTime = 12, st_wordCount = 2, st_sentenceCount = 2,
                        st_avgWordsPerSentence = 1, st_talkTimePercentage = Some (600 / 7) \<rparr>),
               (''B'', \<lparr> st_totalTime = 2, st_wordCount = 1, st_sentenceCount = 1,
                        st_avgWordsPerSentence = 1, st_talkTimePercentage = Some (100 / 7) \<rparr>)],
            totalDuration = 14,
            totalWords = 3,
            sentimentDistribution = \<lparr> positive = 0, neutral = 3, negative = 0 \<rparr>,
            topicFlow =
              [\<lparr> t_topic = ''pricing'', t_startTime = 1, t_duration = 12, t_mentions = 2 \<rparr>,
               \<lparr> t_topic = ''intro'', t_startTime = 6, t_duration = 2, t_mentions = 1 \<rparr>],
            interactionMetrics =
              \<lparr> questionCount = 0, exclamationCount = 0, speakerSwitches = 2 \<rparr> \<rparr>)"
    by code_simp
  ultimately show ?thesis
    using analyzer_topic_flow [OF assms] topics by (intro conjI)
qed

theorem C7_topic_flow_witness:
  "well_typed ex_pricing
   \<and> (\<exists>a. analyzeTranscriptContent (EntryArray ex_pricing) = Inr (Analytics a)
           \<and> topicFlow a =
               [\<lparr> t_topic = ''pricing'', t_startTime = 1, t_duration = 12, t_mentions = 2 \<rparr>,
                \<lparr> t_topic = ''intro'', t_startTime = 6, t_duration = 2, t_mentions = 1 \<rparr>])"
proof -
  have wt: "well_typed ex_pricing"
    by code_simp
  have flow: "expected_topic_flow ex_pricing =
               [\<lparr> t_topic = ''pricing'', t_startTime = 1, t_duration = 12, t_mentions = 2 \<rparr>,
                \<lparr> t_topic = ''intro'', t_startTime = 6, t_duration = 2, t_mentions = 1 \<rparr>]"
    by code_simp
  from C7_topic_flow [OF wt]
  have "\<exists>a. analyzeTranscriptContent (EntryArray ex_pricing) = Inr (Analytics a)
            \<and> topicFlow a = expected_topic_flow ex_pricing"
    by (rule conjunct1)
  with wt flow show ?thesis by simp
qed

subsection \<open>C8: the conversation text extractor\<close>

text \<open>
  The claim as stated fails on its own example: for the sentences \<^verbatim>\<open>"  "\<close> and \<^verbatim>\<open>"Hello"\<close> of
  one speaker the extractor does not return \<^verbatim>\<open>Speaker 1: Hello\<close>. Its label is built by
  \<^verbatim>\<open>`Speaker${speakerMap.size + 1}`\<close>, without a space.
\<close>

theorem C8_counterexample:
  "extractConversationText (EntryArray ex_blank_hello) \<noteq> Inr ''Speaker 1: Hello''"
proof -
  have "extractConversationText (EntryArray ex_blank_hello) = Inr ''Speaker1: Hello''"
    by code_simp
  then show ?thesis by simp
qed

text \<open>
  C8, amended. Let every \<^verbatim>\<open>sentence.text\<close> be absent or a string. The extractor returns
  exactly the lines \<^verbatim>\<open>{label}: {trimmedText}\<close>, one per sentence with non-blank trimmed text,
  in scan order, joined by single newlines with no trailing newline. The label is
  \<^verbatim>\<open>SpeakerN\<close>, without a space, and \<open>N\<close> numbers the speakers in the order in which the
  entries that have a sentences array first show them. Entries without a sentences array
  (and those whose array is empty) and sentences whose text is absent, blank or
  white space only produce no line. On entries with the sentences \<^verbatim>\<open>"  "\<close> and \<^verbatim>\<open>"Hello"\<close> of a
  single speaker the result is the exact string \<^verbatim>\<open>Speaker1: Hello\<close>. The joining is that of
  \<open>joined_by_newlines\<close>, and a dialogue of two speakers with three lines is part of the
  statement: there is one newline between two lines and none at the end.
\<close>

theorem C8_conversation_text:
  assumes "well_typed es"
  shows "extractConversationText (EntryArray es) = Inr (joined_by_newlines (expected_lines es))
    \<and> (joined_by_newlines (expected_lines es) = []
         \<or> last (joined_by_newlines (expected_lines es)) \<noteq> CHR 0x0A)
    \<and> extractConversationText (EntryArray ex_blank_hello) = Inr ''Speaker1: Hello''
    \<and> extractConversationText (EntryArray ex_dialogue) =
        Inr (''Speaker1: Hi'' @ [CHR 0x0A] @ ''Speaker2: Hello there'' @ [CHR 0x0A]
             @ ''Speaker1: Bye'')"
proof -
  have "extractConversationText (EntryArray ex_blank_hello) = Inr ''Speaker1: Hello''"
    by code_simp
  moreover have "extractConversationText (EntryArray ex_dialogue) =
        Inr (''Speaker1: Hi'' @ [CHR 0x0A] @ ''Speaker2: Hello there'' @ [CHR 0x0A]
             @ ''Speaker1: Bye'')"
    by code_simp
  moreover have "extractConversationText (EntryArray es)
                   = Inr (joined_by_newlines (expected_lines es))"
    using extractor_refines [OF assms] by (simp only: join_newline_joined)
  moreover have "joined_by_newlines (expected_lines es) = []
                   \<or> last (joined_by_newlines (expected_lines es)) \<noteq> CHR 0x0A"
    using no_trailing_newline [of es] by (simp only: join_newline_joined)
  ultimately show ?thesis by (intro conjI)
qed

theorem C8_conversation_text_witness:
  "well_typed ex_dialogue
   \<and> extractConversationText (EntryArray ex_dialogue)
       = Inr (joined_by_newlines (expected_lines ex_dialogue))
   \<and> expected_lines ex_dialogue
       = [''Speaker1: Hi'', ''Speaker2: Hello there'', ''Speaker1: Bye'']
   \<and> joined_by_newlines [''Speaker1: Hi'', ''Speaker2: Hello there'', ''Speaker1: Bye'']
       = ''Speaker1: Hi'' @ [CHR 0x0A] @ ''Speaker2: Hello there'' @ [CHR 0x0A]
         @ ''Speaker1: Bye''"
proof -
  have wt: "well_typed ex_dialogue"
    by code_simp
  have lines: "expected_lines ex_dialogue
                 = [''Speaker1: Hi'', ''Speaker2: Hello there'', ''Speaker1: Bye'']"
    by code_simp
  have joined: "joined_by_newlines [''Speaker1: Hi'', ''Speaker2: Hello there'', ''Speaker1: Bye'']
       = ''Speaker1: Hi'' @ [CHR 0x0A] @ ''Speaker2: Hello there'' @ [CHR 0x0A]
         @ ''Speaker1: Bye''"
    by (simp add: joined_by_newlines_def)
  from C8_conversation_text [OF wt]
  have "extractConversationText (EntryArray ex_dialogue)
          = Inr (joined_by_newlines (expected_lines ex_dialogue))"
    by (rule conjunct1)
  with wt lines joined show ?thesis by (intro conjI)
qed

subsection \<open>C9: an argument that is not an array\<close>

text \<open>
  The claim as stated fails for the analyzer: on \<^verbatim>\<open>null\<close> it does not return the analytics
  object with zeroed counters.
\<close>

theorem C9_counterexample:
  "analyzeTranscriptContent (NotAnArray JNull) \<noteq> Inr (Analytics initial_analysis)"
  by (simp add: analyzeTranscriptContent_def)

text \<open>
  C9, amended. For every argument that is not an array, \<open>processTranscriptEntries\<close> returns
  the empty sequence without raising an error, and \<open>analyzeTranscriptContent\<close> returns the
  empty object, which has none of the analytics fields, without raising an error.
\<close>

theorem C9_non_array_argument:
  "processTranscriptEntries (NotAnArray v) = Inr []
   \<and> analyzeTranscriptContent (NotAnArray v) = Inr EmptyObject"
  by (simp add: processTranscriptEntries_def analyzeTranscriptContent_def)

subsection \<open>C10: totality of the pipeline functions\<close>

text \<open>
  The claim as stated fails: a \<^verbatim>\<open>sentence.text\<close> that is the number 5 is not treated as the
  empty string. Each of the three functions throws a TypeError on it.
\<close>

theorem C10_counterexample:
  "processTranscriptEntries (EntryArray ex_number_text) = Inl TypeError
   \<and> analyzeTranscriptContent (EntryArray ex_number_text) = Inl TypeError
   \<and> extractConversationText (EntryArray ex_number_text) = Inl TypeError"
proof -
  have "processTranscriptEntries (EntryArray ex_number_text) = Inl TypeError"
    by code_simp
  moreover have "analyzeTranscriptContent (EntryArray ex_number_text) = Inl TypeError"
    by code_simp
  moreover have "extractConversationText (EntryArray ex_number_text) = Inl TypeError"
    by code_simp
  ultimately show ?thesis by (intro conjI)
qed

text \<open>
  C10, amended. The three pipeline functions return, and never throw, on every argument
  that is not an array and on every array of entries in which each \<^verbatim>\<open>sentence.text\<close> is
  missing (undefined or null) or a string. A missing text is treated as the empty
  string: each function returns on the argument what it returns on \<open>fill_missing\<close> of the
  argument, in which \<^verbatim>\<open>""\<close> is written for every missing text. A text of another type is
  not guarded against.

  The transcript \<open>ex_missing_texts\<close>, with a text left out, a null text and the text
  \<^verbatim>\<open>Is this good?\<close>, is part of the statement. The normalizer gives the two sentences without
  text the sentence \<^verbatim>\<open>No text available\<close>, no word and the sentiment neutral; the analyzer
  counts one word for each of them and three for the third; the extractor gives the line
  of the third sentence only. All three return the same on \<open>ex_empty_texts\<close>.
\<close>

theorem C10_total_on_documented_input:
  assumes "arg_well_typed arg"
  shows "(\<exists>us. processTranscriptEntries arg = Inr us
               \<and> processTranscriptEntries (fill_missing arg) = Inr us)
    \<and> (\<exists>r. analyzeTranscriptContent arg = Inr r
              \<and> analyzeTranscriptContent (fill_missing arg) = Inr r)
    \<and> (\<exists>txt. extractConversationText arg = Inr txt
                \<and> extractConversationText (fill_missing arg) = Inr txt)
    \<and> fill_missing (EntryArray ex_missing_texts) = EntryArray ex_empty_texts
    \<and> processTranscriptEntries (EntryArray ex_missing_texts) =
        Inr [\<lparr> u_speakerId = ''A'', u_speakerName = ''Speaker 1'',
                u_sentence = JStr ''No text available'', u_startTime = 1, u_endTime = 3,
                u_timestamp = ''00:01'', u_topic = Some ''intro'', u_duration = 2,
                u_wordCount = 0, u_sentiment = Neutral \<rparr>,
             \<lparr> u_speakerId = ''A'', u_speakerName = ''Speaker 1'',
                u_sentence = JStr ''Is this good?'', u_startTime = 3, u_endTime = 5,
                u_timestamp = ''00:03'', u_topic = Some ''intro'', u_duration = 2,
                u_wordCount = 3, u_sentiment = Positive \<rparr>,
             \<lparr> u_speakerId = ''B'', u_speakerName = ''Speaker 2'',
                u_sentence = JStr ''No text available'', u_startTime = 5, u_endTime = 6,
                u_timestamp = ''00:05'', u_topic = None, u_duration = 1,
                u_wordCount = 0, u_sentiment = Neutral \<rparr>]
    \<and> analyzeTranscriptContent (EntryArray ex_missing_texts) =
        Inr (Analytics
          \<lparr> speakerStats =
               [(''A'', \<lparr> st_totalTime = 4, st_wordCount = 4, st_sentenceCount = 2,
                          st_avgWordsPerSentence = 2, st_talkTimePercentage = Some 80 \<rparr>),
                (''B'', \<lparr> st_totalTime = 1, st_wordCount = 1, st_sentenceCount = 1,
                          st_avgWordsPerSentence = 1, st_talkTimePercentage = Some 20 \<rparr>)],
             totalDuration = 5,
             totalWords = 5,
             sentimentDistribution = \<lparr> positive = 1, neutral = 2, negative = 0 \<rparr>,
             topicFlow = [\<lparr> t_topic = ''intro'', t_startTime = 1, t_duration = 4,
                            t_mentions = 2 \<rparr>],
             interactionMetrics = \<lparr> questionCount = 1, exclamationCount = 0,
                                     speakerSwitches = 1 \<rparr> \<rparr>)
    \<and> extractConversationText (EntryArray ex_missing_texts) = Inr ''Speaker1: Is this good?''
    \<and> processTranscriptEntries (EntryArray ex_empty_texts)
        = processTranscriptEntries (EntryArray ex_missing_texts)
    \<and> analyzeTranscriptContent (EntryArray ex_empty_texts)
        = analyzeTranscriptContent (EntryArray ex_missing_texts)
    \<and> extractConversationText (EntryArray ex_empty_texts)
        = extractConversationText (EntryArray ex_missing_texts)"
proof -
  have returns: "(\<exists>us. processTranscriptEntries arg = Inr us)
      \<and> (\<exists>r. analyzeTranscriptContent arg = Inr r)
      \<and> (\<exists>txt. extractConversationText arg = Inr txt)"
  proof (cases arg)
    case (NotAnArray v)
    then show ?thesis
      by (simp add: processTranscriptEntries_def analyzeTranscriptContent_def
                    extractConversationText_def)
  next
    case (EntryArray es)
    with assms have wt: "well_typed es" by (simp add: arg_well_typed_def)
    from analyzer_total [OF wt] have "\<exists>r. analyzeTranscriptContent (EntryArray es) = Inr r"
      by blast
    with normalizer_refines [OF wt] extractor_refines [OF wt] EntryArray
    show ?thesis by simp
  qed
  then have "\<exists>us. processTranscriptEntries arg = Inr us
                 \<and> processTranscriptEntries (fill_missing arg) = Inr us"
    by (simp only: normalizer_fill) simp
  moreover from returns have "\<exists>r. analyzeTranscriptContent arg = Inr r
                 \<and> analyzeTranscriptContent (fill_missing arg) = Inr r"
    by (simp only: analyzer_fill) simp
  moreover from returns have "\<exists>txt. extractConversationText arg = Inr txt
                 \<and> extractConversationText (fill_missing arg) = Inr txt"
    by (simp only: extractor_fill) simp
  moreover have fill: "fill_missing (EntryArray ex_missing_texts) = EntryArray ex_empty_texts"
    by code_simp
  moreover have "processTranscriptEntries (EntryArray ex_missing_texts) =
        Inr [\<lparr> u_speakerId = ''A'', u_speakerName = ''Speaker 1'',
                u_sentence = JStr ''No text available'', u_startTime = 1, u_endTime = 3,
                u_timestamp = ''00:01'', u_topic = Some ''intro'', u_duration = 2,
                u_wordCount = 0, u_sentiment = Neutral \<rparr>,
             \<lparr> u_speakerId = ''A'', u_speakerName = ''Speaker 1'',
                u_sentence = JStr ''Is this good?'', u_startTime = 3, u_endTime = 5,
                u_timestamp = ''00:03'', u_topic = Some ''intro'', u_duration = 2,
                u_wordCount = 3, u_sentiment = Positive \<rparr>,
             \<lparr> u_speakerId = ''B'', u_speakerName = ''Speaker 2'',
                u_sentence = JStr ''No text available'', u_startTime = 5, u_endTime = 6,
                u_timestamp = ''00:05'', u_topic = None, u_duration = 1,
                u_wordCount = 0, u_sentiment = Neutral \<rparr>]"
    by code_simp
  moreover have "analyzeTranscriptContent (EntryArray ex_missing_texts) =
        Inr (Analytics
          \<lparr> speakerStats =
               [(''A'', \<lparr> st_totalTime = 4, st_wordCount = 4, st_sentenceCount = 2,
                          st_avgWordsPerSentence = 2, st_talkTimePercentage = Some 80 \<rparr>),
                (''B'', \<lparr> st_totalTime = 1, st_wordCount = 1, st_sentenceCount = 1,
                          st_avgWordsPerSentence = 1, st_talkTimePercentage = Some 20 \<rparr>)],
             totalDuration = 5,
             totalWords = 5,
             sentimentDistribution = \<lparr> positive = 1, neutral = 2, negative = 0 \<rparr>,
             topicFlow = [\<lparr> t_topic = ''intro'', t_startTime = 1, t_duration = 4,
                            t_mentions = 2 \<rparr>],
             interactionMetrics = \<lparr> questionCount = 1, exclamationCount = 0,
                                     speakerSwitches = 1 \<rparr> \<rparr>)"
    by code_simp
  moreover have "extractConversationText (EntryArray ex_missing_texts)
                   = Inr ''Speaker1: Is this good?''"
    by code_simp
  moreover have "processTranscriptEntries (EntryArray ex_empty_texts)
                   = processTranscriptEntries (EntryArray ex_missing_texts)"
    using normalizer_fill [of "EntryArray ex_missing_texts"] by (simp only: fill)
  moreover have "analyzeTranscriptContent (EntryArray ex_empty_texts)
                   = analyzeTranscriptContent (EntryArray ex_missing_texts)"
    using analyzer_fill [of "EntryArray ex_missing_texts"] by (simp only: fill)
  moreover have "extractConversationText (EntryArray ex_empty_texts)
                   = extractConversationText (EntryArray ex_missing_texts)"
    using extractor_fill [of "EntryArray ex_missing_texts"] by (simp only: fill)
  ultimately show ?thesis by (intro conjI)
qed

theorem C10_total_on_documented_input_witness:
  "arg_well_typed (EntryArray ex_missing_texts)
   \<and> (\<exists>us. processTranscriptEntries (EntryArray ex_missing_texts) = Inr us
            \<and> processTranscriptEntries (EntryArray ex_empty_texts) = Inr us)
   \<and> (\<exists>r. analyzeTranscriptContent (EntryArray ex_missing_texts) = Inr r
           \<and> analyzeTranscriptContent (EntryArray ex_empty_texts) = Inr r)
   \<and> (\<exists>txt. extractConversationText (EntryArray ex_missing_texts) = Inr txt
             \<and> extractConversationText (EntryArray ex_empty_texts) = Inr txt)"
proof -
  have wt: "arg_well_typed (EntryArray ex_missing_texts)"
    by code_simp
  have fill: "fill_missing (EntryArray ex_missing_texts) = EntryArray ex_empty_texts"
    by code_simp
  note all = C10_total_on_documented_input [OF wt]
  from all have "\<exists>us. processTranscriptEntries (EntryArray ex_missing_texts) = Inr us
            \<and> processTranscriptEntries (fill_missing (EntryArray ex_missing_texts)) = Inr us"
    by (rule conjunct1)
  moreover from all have "\<exists>r. analyzeTranscriptContent (EntryArray ex_missing_texts) = Inr r
            \<and> analyzeTranscriptContent (fill_missing (EntryArray ex_missing_texts)) = Inr r"
    by (elim conjE)
  moreover from all have "\<exists>txt. extractConversationText (EntryArray ex_missing_texts) = Inr txt
            \<and> extractConversationText (fill_missing (EntryArray ex_missing_texts)) = Inr txt"
    by (elim conjE)
  ultimately show ?thesis using wt by (simp only: fill simp_thms)
qed

end
